theory Spec2Isabelle
  imports Main "HOL-Library.Char_ord" "HOL-Library.List_Lexorder" "HOL-Library.Multiset"
begin

section \<open>Robot Framework documentation server: a model of rf\_docs\_server.py\<close>

text \<open>
  Python strings are modelled as \<^typ>\<open>string\<close>: a \<^typ>\<open>char\<close> stands for a code point
  below 256.  Python dictionaries keep insertion order, so they are association
  lists; the decoded form of a JSON file stands for the file.
\<close>

subsection \<open>Characters\<close>

abbreviation dquote :: char where "dquote \<equiv> CHR 0x22"
abbreviation backslash :: char where "backslash \<equiv> CHR 0x5C"
abbreviation backtick :: char where "backtick \<equiv> CHR 0x60"

text \<open>The characters Python's \<^verbatim>\<open>\s\<close> and \<^verbatim>\<open>str.strip()\<close> take for white space.\<close>

definition py_isspace :: "char \<Rightarrow> bool" where
  "py_isspace c =
     (let n = (of_char c :: nat)
      in (9 \<le> n \<and> n \<le> 13) \<or> (28 \<le> n \<and> n \<le> 32) \<or> n = 133 \<or> n = 160)"

subsection \<open>The embedded JSON literal: \_parse\_library\_keywords, lines 197 to 241\<close>

text \<open>
  \<^verbatim>\<open>re.search(r'libdoc\s*=\s*\{', html_content)\<close>.  Neither \<^verbatim>\<open>=\<close> nor \<^verbatim>\<open>{\<close> is
  white space, so the greedy \<^verbatim>\<open>\s*\<close> never has to give a character back.
  \<open>match_libdoc_here s\<close> is the length of the match that starts at the head of \<open>s\<close>.
\<close>

definition match_libdoc_here :: "string \<Rightarrow> nat option" where
  "match_libdoc_here s =
     (if take 6 s = ''libdoc'' then
        (case dropWhile py_isspace (drop 6 s) of
           [] \<Rightarrow> None
         | c # r2 \<Rightarrow>
             if c = CHR ''='' then
               (case dropWhile py_isspace r2 of
                  [] \<Rightarrow> None
                | b # r4 \<Rightarrow> if b = CHR ''{'' then Some (length s - length r4) else None)
             else None)
      else None)"

text \<open>The leftmost match; the result is \<^verbatim>\<open>start_match.end()\<close>.\<close>

fun re_search_libdoc :: "string \<Rightarrow> nat \<Rightarrow> nat option" where
  "re_search_libdoc [] pos = None"
| "re_search_libdoc (c # cs) pos =
     (case match_libdoc_here (c # cs) of
        Some n \<Rightarrow> Some (pos + n)
      | None \<Rightarrow> re_search_libdoc cs (Suc pos))"

text \<open>
  The loop \<^verbatim>\<open>for i in range(start_pos, len(html_content))\<close>: the first argument is the
  text from index \<open>i\<close> on.  \<open>Some end_pos\<close> is the \<^verbatim>\<open>break\<close>, \<open>None\<close> the loop's
  \<^verbatim>\<open>else\<close> branch.
\<close>

fun scan_braces :: "string \<Rightarrow> nat \<Rightarrow> int \<Rightarrow> bool \<Rightarrow> bool \<Rightarrow> nat option" where
  "scan_braces [] i depth in_string escape = None"
| "scan_braces (char # rest) i depth in_string escape =
     (if escape then scan_braces rest (Suc i) depth in_string False
      else if char = backslash then scan_braces rest (Suc i) depth in_string True
      else if char = dquote \<and> \<not> escape then scan_braces rest (Suc i) depth (\<not> in_string) escape
      else if \<not> in_string then
        (if char = CHR ''{'' then scan_braces rest (Suc i) (depth + 1) in_string escape
         else if char = CHR ''}'' then
           (if depth - 1 = 0 then Some (Suc i)
            else scan_braces rest (Suc i) (depth - 1) in_string escape)
         else scan_braces rest (Suc i) depth in_string escape)
      else scan_braces rest (Suc i) depth in_string escape)"

datatype parse_error =
    NotDownloaded
  | LibdocNotFound
  | LibdocEndNotFound
  | JSONDecodeError string
  | ParsingError

definition extract_libdoc_json :: "string \<Rightarrow> parse_error + string" where
  "extract_libdoc_json html_content =
     (case re_search_libdoc html_content 0 of
        None \<Rightarrow> Inl LibdocNotFound
      | Some match_end \<Rightarrow>
          (let start_pos = match_end - 1 in
           case scan_braces (drop start_pos html_content) start_pos 0 False False of
             None \<Rightarrow> Inl LibdocEndNotFound
           | Some end_pos \<Rightarrow>
               Inr (take (end_pos - start_pos) (drop start_pos html_content))))"

text \<open>
  \<^verbatim>\<open>json.loads(libdoc_json)\<close>.  The decoder is the standard library's and is a
  parameter; \<open>Inl msg\<close> is its \<^verbatim>\<open>JSONDecodeError\<close>.
\<close>

definition decode_libdoc :: "(string \<Rightarrow> string + 'j) \<Rightarrow> string \<Rightarrow> parse_error + 'j" where
  "decode_libdoc json_loads html_content =
     (case extract_libdoc_json html_content of
        Inl err \<Rightarrow> Inl err
      | Inr libdoc_json \<Rightarrow>
          (case json_loads libdoc_json of
             Inl msg \<Rightarrow> Inl (JSONDecodeError msg)
           | Inr libdoc_data \<Rightarrow> Inr libdoc_data))"

subsection \<open>Well-formed JSON text (RFC 8259)\<close>

definition json_ws :: "string \<Rightarrow> bool" where
  "json_ws w = list_all (\<lambda>c. c \<in> set [CHR 0x20, CHR 0x09, CHR 0x0A, CHR 0x0D]) w"

definition json_digits :: "string \<Rightarrow> bool" where
  "json_digits s = list_all (\<lambda>c. c \<in> set ''0123456789'') s"

definition hex_digit :: "char \<Rightarrow> bool" where
  "hex_digit c = (c \<in> set ''0123456789abcdefABCDEF'')"

inductive json_int :: "string \<Rightarrow> bool" where
  int_zero: "json_int ''0''"
| int_pos: "d \<in> set ''123456789'' \<Longrightarrow> json_digits ds \<Longrightarrow> json_int (d # ds)"
| int_neg: "json_int s \<Longrightarrow> hd s \<noteq> CHR ''-'' \<Longrightarrow> json_int (CHR ''-'' # s)"

inductive json_frac :: "string \<Rightarrow> bool" where
  frac_none: "json_frac []"
| frac_some: "json_digits ds \<Longrightarrow> ds \<noteq> [] \<Longrightarrow> json_frac (CHR ''.'' # ds)"

inductive json_exp :: "string \<Rightarrow> bool" where
  exp_none: "json_exp []"
| exp_some: "e \<in> set ''eE'' \<Longrightarrow> sg \<in> {[], ''+'', ''-''} \<Longrightarrow> json_digits ds \<Longrightarrow> ds \<noteq> []
     \<Longrightarrow> json_exp (e # sg @ ds)"

inductive json_number :: "string \<Rightarrow> bool" where
  number: "json_int i \<Longrightarrow> json_frac f \<Longrightarrow> json_exp e \<Longrightarrow> json_number (i @ f @ e)"

text \<open>The characters between the quotes of a string token.\<close>

inductive json_chars :: "string \<Rightarrow> bool" where
  chars_nil: "json_chars []"
| chars_plain: "c \<noteq> dquote \<Longrightarrow> c \<noteq> backslash \<Longrightarrow> 32 \<le> (of_char c :: nat) \<Longrightarrow> json_chars s
     \<Longrightarrow> json_chars (c # s)"
| chars_escape: "c \<in> set [dquote, backslash, CHR ''/'', CHR ''b'', CHR ''f'', CHR ''n'', CHR ''r'', CHR ''t'']
     \<Longrightarrow> json_chars s \<Longrightarrow> json_chars (backslash # c # s)"
| chars_unicode: "hex_digit a \<Longrightarrow> hex_digit b \<Longrightarrow> hex_digit c \<Longrightarrow> hex_digit d \<Longrightarrow> json_chars s
     \<Longrightarrow> json_chars (backslash # CHR ''u'' # a # b # c # d # s)"

inductive json_value :: "string \<Rightarrow> bool"
  and json_members :: "string \<Rightarrow> bool"
  and json_elements :: "string \<Rightarrow> bool"
where
  val_string: "json_chars b \<Longrightarrow> json_value (dquote # b @ [dquote])"
| val_number: "json_number n \<Longrightarrow> json_value n"
| val_true: "json_value ''true''"
| val_false: "json_value ''false''"
| val_null: "json_value ''null''"
| val_empty_object: "json_ws w \<Longrightarrow> json_value (CHR ''{'' # w @ ''}'')"
| val_object: "json_members m \<Longrightarrow> json_value (CHR ''{'' # m @ ''}'')"
| val_empty_array: "json_ws w \<Longrightarrow> json_value (CHR ''['' # w @ '']'')"
| val_array: "json_elements e \<Longrightarrow> json_value (CHR ''['' # e @ '']'')"
| member_last: "json_ws w1 \<Longrightarrow> json_chars k \<Longrightarrow> json_ws w2 \<Longrightarrow> json_ws w3 \<Longrightarrow> json_value v
     \<Longrightarrow> json_ws w4
     \<Longrightarrow> json_members (w1 @ (dquote # k @ [dquote]) @ w2 @ '':'' @ w3 @ v @ w4)"
| member_more: "json_ws w1 \<Longrightarrow> json_chars k \<Longrightarrow> json_ws w2 \<Longrightarrow> json_ws w3 \<Longrightarrow> json_value v
     \<Longrightarrow> json_ws w4 \<Longrightarrow> json_members m
     \<Longrightarrow> json_members (w1 @ (dquote # k @ [dquote]) @ w2 @ '':'' @ w3 @ v @ w4 @ '','' @ m)"
| element_last: "json_ws w1 \<Longrightarrow> json_value v \<Longrightarrow> json_ws w2 \<Longrightarrow> json_elements (w1 @ v @ w2)"
| element_more: "json_ws w1 \<Longrightarrow> json_value v \<Longrightarrow> json_ws w2 \<Longrightarrow> json_elements e
     \<Longrightarrow> json_elements (w1 @ v @ w2 @ '','' @ e)"

text \<open>A JSON object: a value that opens with a brace.\<close>

inductive json_object :: "string \<Rightarrow> bool" where
  object_empty: "json_ws w \<Longrightarrow> json_object (CHR ''{'' # w @ ''}'')"
| object_members: "json_members m \<Longrightarrow> json_object (CHR ''{'' # m @ ''}'')"

text \<open>
  A piece of text that the scanner, outside a string and at depth one or more, passes
  over without a change of state.
\<close>

definition skipped :: "string \<Rightarrow> bool" where
  "skipped x = (\<forall>rest i d. 1 \<le> d \<longrightarrow>
     scan_braces (x @ rest) i d False False = scan_braces rest (i + length x) d False False)"

subsection \<open>Python string and list operations\<close>

text \<open>\<^verbatim>\<open>str.lower()\<close> on code points below 256.\<close>

definition py_lower_char :: "char \<Rightarrow> char" where
  "py_lower_char c =
     (let n = (of_char c :: nat)
      in if (65 \<le> n \<and> n \<le> 90) \<or> (192 \<le> n \<and> n \<le> 222 \<and> n \<noteq> 215)
         then char_of (n + 32) else c)"

definition py_lower :: "string \<Rightarrow> string" where
  "py_lower s = map py_lower_char s"

text \<open>
  \<^verbatim>\<open>s.count(sub)\<close>: the number of occurrences that do not overlap, counted from the
  left; for the empty \<open>sub\<close> it is \<^verbatim>\<open>len(s) + 1\<close>.
\<close>

function py_count :: "string \<Rightarrow> string \<Rightarrow> nat" where
  "py_count s sub =
     (if sub = [] then length s + 1
      else if length s < length sub then 0
      else if take (length sub) s = sub then 1 + py_count (drop (length sub) s) sub
      else py_count (tl s) sub)"
  by pat_completeness auto
termination
  by (relation "measure (\<lambda>(s, sub). length s)") (auto simp: neq_Nil_conv)

declare py_count.simps [simp del]

text \<open>\<^verbatim>\<open>s.replace(old, new)\<close> for a one-character \<open>old\<close>.\<close>

definition py_replace_char :: "char \<Rightarrow> string \<Rightarrow> string \<Rightarrow> string" where
  "py_replace_char old new s = concat (map (\<lambda>c. if c = old then new else [c]) s)"

definition py_strip :: "string \<Rightarrow> string" where
  "py_strip s = rev (dropWhile py_isspace (rev (dropWhile py_isspace s)))"

fun py_join :: "string \<Rightarrow> string list \<Rightarrow> string" where
  "py_join sep [] = []"
| "py_join sep [x] = x"
| "py_join sep (x # y # ys) = x @ sep @ py_join sep (y # ys)"

text \<open>The slice \<^verbatim>\<open>xs[:n]\<close>; a negative \<open>n\<close> counts from the end.\<close>

definition py_slice_to :: "int \<Rightarrow> 'a list \<Rightarrow> 'a list" where
  "py_slice_to n xs =
     (if n < 0 then take (nat (int (length xs) + n)) xs else take (nat n) xs)"

text \<open>How an f-string prints a value that is a \<^verbatim>\<open>str\<close> or \<^verbatim>\<open>None\<close>.\<close>

definition py_format :: "string option \<Rightarrow> string" where
  "py_format v = (case v of None \<Rightarrow> ''None'' | Some s \<Rightarrow> s)"

text \<open>Dictionaries: assignment keeps the position of a key that is already there.\<close>

type_synonym ('k, 'v) dict = "('k \<times> 'v) list"

fun dict_set :: "'k \<Rightarrow> 'v \<Rightarrow> ('k, 'v) dict \<Rightarrow> ('k, 'v) dict" where
  "dict_set k v [] = [(k, v)]"
| "dict_set k v ((k', v') # d) = (if k' = k then (k, v) # d else (k', v') # dict_set k v d)"

definition dict_get :: "('k, 'v) dict \<Rightarrow> 'k \<Rightarrow> 'v option" where
  "dict_get d k = map_of d k"

subsection \<open>Constants\<close>

definition RF_VERSION :: string where
  "RF_VERSION = ''7.4.1''"

definition RF_DOCS_URL :: string where
  "RF_DOCS_URL = ''https://robotframework.org/robotframework/'' @ RF_VERSION @ ''/RobotFrameworkUserGuide.html''"

definition RF_BASE_LIB_URL :: string where
  "RF_BASE_LIB_URL = ''https://robotframework.org/robotframework/'' @ RF_VERSION @ ''/libraries''"

definition STANDARD_LIBRARIES :: "string list" where
  "STANDARD_LIBRARIES =
     [''BuiltIn'', ''Collections'', ''DateTime'', ''OperatingSystem'', ''Process'',
      ''Screenshot'', ''String'', ''Telnet'', ''XML'']"

subsection \<open>The data model\<close>

record doc_section =
  section_id :: "string option"
  level :: int
  title :: string
  content :: string

record section_index =
  si_version :: string
  si_parsed_at :: string
  total_sections :: nat
  si_sections :: "doc_section list"

text \<open>Decoded JSON; numbers are the integers.\<close>

datatype json =
    JNull
  | JBool bool
  | JInt int
  | JStr string
  | JArr "json list"
  | JObj "(string \<times> json) list"

record keyword =
  name :: string
  id' :: string
  args :: string
  doc :: string
  library :: string
  source :: json
  lineno :: json

record keywords_index =
  ki_version :: string
  ki_parsed_at :: string
  total_libraries :: nat
  ki_total_keywords :: nat
  ki_libraries :: "(string, (string, keyword) dict) dict"

subsection \<open>The section extractor: class DocumentationParser\<close>

text \<open>
  \<^verbatim>\<open>HTMLParser.feed\<close> is the standard library's; what it does to a document is the list
  of handler calls it makes.  An attribute without a value has the value \<^verbatim>\<open>None\<close>.
\<close>

datatype html_event =
    StartTag string "(string \<times> string option) list"
  | EndTag string
  | Data string

record parser =
  sections :: "doc_section list"
  current_section :: "doc_section option"
  current_content :: "string list"
  in_section :: bool
  section_level :: int

definition parser_init :: parser where
  "parser_init =
     \<lparr>sections = [], current_section = None, current_content = [], in_section = False,
      section_level = 0\<rparr>"

definition heading_tags :: "string list" where
  "heading_tags = [''h1'', ''h2'', ''h3'', ''h4'']"

text \<open>\<^verbatim>\<open>int(tag[1])\<close> for a tag of \<open>heading_tags\<close>.\<close>

definition heading_level :: "string \<Rightarrow> int" where
  "heading_level tag = int (of_char (tag ! 1)) - 48"

text \<open>\<^verbatim>\<open>dict(attrs).get('id', '')\<close>: of two attributes of one name the later one stays.\<close>

definition attrs_id :: "(string \<times> string option) list \<Rightarrow> string option" where
  "attrs_id attrs = (case map_of (rev attrs) ''id'' of None \<Rightarrow> Some [] | Some v \<Rightarrow> v)"

text \<open>The list \<open>self.sections\<close> after the section that is open, if any, is saved.\<close>

definition save_section :: "parser \<Rightarrow> doc_section list" where
  "save_section self =
     (case current_section self of
        None \<Rightarrow> sections self
      | Some cur \<Rightarrow>
          sections self @ [cur\<lparr>content := py_strip (py_join '' '' (current_content self))\<rparr>])"

definition handle_starttag :: "string \<Rightarrow> (string \<times> string option) list \<Rightarrow> parser \<Rightarrow> parser" where
  "handle_starttag tag attrs self =
     (if tag \<in> set heading_tags then
        self\<lparr>sections := save_section self,
             section_level := heading_level tag,
             current_section :=
               Some \<lparr>section_id = attrs_id attrs, level = heading_level tag, title = [],
                     content = []\<rparr>,
             current_content := [],
             in_section := True\<rparr>
      else self)"

definition handle_endtag :: "string \<Rightarrow> parser \<Rightarrow> parser" where
  "handle_endtag tag self =
     (if tag \<in> set heading_tags then self\<lparr>in_section := False\<rparr> else self)"

definition handle_data :: "string \<Rightarrow> parser \<Rightarrow> parser" where
  "handle_data data self =
     (case current_section self of
        None \<Rightarrow> self
      | Some cur \<Rightarrow>
          if in_section self then self\<lparr>current_section := Some (cur\<lparr>title := py_strip data\<rparr>)\<rparr>
          else (let text = py_strip data
                in if text \<noteq> [] then self\<lparr>current_content := current_content self @ [text]\<rparr>
                   else self))"

fun handle_event :: "parser \<Rightarrow> html_event \<Rightarrow> parser" where
  "handle_event self (StartTag tag attrs) = handle_starttag tag attrs self"
| "handle_event self (EndTag tag) = handle_endtag tag self"
| "handle_event self (Data data) = handle_data data self"

definition get_sections :: "parser \<Rightarrow> doc_section list" where
  "get_sections self = save_section self"

text \<open>\<^verbatim>\<open>parser.feed(html_content); sections = parser.get_sections()\<close> on a fresh parser.\<close>

definition extract_sections :: "html_event list \<Rightarrow> doc_section list" where
  "extract_sections events = get_sections (foldl handle_event parser_init events)"

subsection \<open>The keyword normalizer: \_parse\_library\_keywords, lines 246 to 280\<close>

fun py_truthy :: "json \<Rightarrow> bool" where
  "py_truthy JNull = False"
| "py_truthy (JBool b) = b"
| "py_truthy (JInt i) = (i \<noteq> 0)"
| "py_truthy (JStr s) = (s \<noteq> [])"
| "py_truthy (JArr xs) = (xs \<noteq> [])"
| "py_truthy (JObj m) = (m \<noteq> [])"

text \<open>
  \<^verbatim>\<open>d.get(key, default)\<close>; on a value that is no dictionary it raises, and the
  \<^verbatim>\<open>except Exception\<close> of the function turns every such exception into a parsing error.
\<close>

fun py_get :: "json \<Rightarrow> string \<Rightarrow> json \<Rightarrow> parse_error + json" where
  "py_get (JObj m) key dflt = Inr (case map_of m key of None \<Rightarrow> dflt | Some v \<Rightarrow> v)"
| "py_get _ key dflt = Inl ParsingError"

text \<open>What a \<^verbatim>\<open>for\<close> loop iterates over: a list, the keys of a dictionary, the characters of a string.\<close>

fun py_iter :: "json \<Rightarrow> parse_error + json list" where
  "py_iter (JArr xs) = Inr xs"
| "py_iter (JObj m) = Inr (map (\<lambda>kv. JStr (fst kv)) m)"
| "py_iter (JStr s) = Inr (map (\<lambda>c. JStr [c]) s)"
| "py_iter _ = Inl ParsingError"

fun py_str :: "json \<Rightarrow> parse_error + string" where
  "py_str (JStr s) = Inr s"
| "py_str _ = Inl ParsingError"

fun py_strs :: "json list \<Rightarrow> parse_error + string list" where
  "py_strs [] = Inr []"
| "py_strs (x # xs) =
     (case py_str x of
        Inl err \<Rightarrow> Inl err
      | Inr s \<Rightarrow> (case py_strs xs of Inl err \<Rightarrow> Inl err | Inr ss \<Rightarrow> Inr (s # ss)))"

definition bind_result :: "'e + 'a \<Rightarrow> ('a \<Rightarrow> 'e + 'b) \<Rightarrow> 'e + 'b" where
  "bind_result r f = (case r of Inl err \<Rightarrow> Inl err | Inr v \<Rightarrow> f v)"

text \<open>
  \<^verbatim>\<open>re.sub(r'<[^>]+>', '', doc)\<close>: a \<^verbatim>\<open><\<close>, one character or more that are not \<^verbatim>\<open>>\<close>,
  and the first \<^verbatim>\<open>>\<close> after them.
\<close>

function remove_tags :: "string \<Rightarrow> string" where
  "remove_tags [] = []"
| "remove_tags (c # cs) =
     (if c = CHR ''<'' \<and> takeWhile (\<lambda>x. x \<noteq> CHR ''>'') cs \<noteq> []
         \<and> dropWhile (\<lambda>x. x \<noteq> CHR ''>'') cs \<noteq> []
      then remove_tags (tl (dropWhile (\<lambda>x. x \<noteq> CHR ''>'') cs))
      else c # remove_tags cs)"
  by pat_completeness auto
termination
proof (relation "measure length")
  fix c :: char and cs :: string
  have "length (tl (dropWhile (\<lambda>x. x \<noteq> CHR ''>'') cs)) \<le> length cs"
    using length_dropWhile_le [of "\<lambda>x. x \<noteq> CHR ''>''" cs] by simp
  then show "(tl (dropWhile (\<lambda>x. x \<noteq> CHR ''>'') cs), c # cs) \<in> measure length"
    by simp
qed simp_all

text \<open>
  \<^verbatim>\<open>re.sub(r'``([^`]+)``', r'\1', doc)\<close>: two backticks, one character or more that
  are no backtick, two backticks; what is left is the characters in between.
\<close>

function unwrap_literals :: "string \<Rightarrow> string" where
  "unwrap_literals [] = []"
| "unwrap_literals (c # cs) =
     (if c = backtick \<and> take 1 cs = [backtick]
         \<and> takeWhile (\<lambda>x. x \<noteq> backtick) (tl cs) \<noteq> []
         \<and> take 2 (dropWhile (\<lambda>x. x \<noteq> backtick) (tl cs)) = [backtick, backtick]
      then takeWhile (\<lambda>x. x \<noteq> backtick) (tl cs)
           @ unwrap_literals (drop 2 (dropWhile (\<lambda>x. x \<noteq> backtick) (tl cs)))
      else c # unwrap_literals cs)"
  by pat_completeness auto
termination
proof (relation "measure length")
  fix c :: char and cs :: string
  have "length (dropWhile (\<lambda>x. x \<noteq> backtick) (tl cs)) \<le> length (tl cs)"
    by (rule length_dropWhile_le)
  then show "(drop 2 (dropWhile (\<lambda>x. x \<noteq> backtick) (tl cs)), c # cs) \<in> measure length"
    by simp
qed simp_all

text \<open>The loop over \<^verbatim>\<open>kw_data.get("args", [])\<close>.\<close>

fun args_loop :: "json list \<Rightarrow> json list \<Rightarrow> parse_error + json list" where
  "args_loop [] args_parts = Inr args_parts"
| "args_loop (arg # rest) args_parts =
     (case py_get arg ''repr'' (JStr []) of
        Inl err \<Rightarrow> Inl err
      | Inr arg_repr \<Rightarrow>
          if py_truthy arg_repr then args_loop rest (args_parts @ [arg_repr])
          else args_loop rest args_parts)"

text \<open>
  One turn of the loop over the keyword records: \<open>Inr None\<close> is \<^verbatim>\<open>continue\<close>,
  \<open>Inr (Some kw)\<close> the value stored at \<^verbatim>\<open>keywords[name]\<close>.
\<close>

definition keyword_of :: "string \<Rightarrow> json \<Rightarrow> parse_error + keyword option" where
  "keyword_of library_name kw_data =
     bind_result (py_get kw_data ''name'' (JStr [])) (\<lambda>name_v.
       if \<not> py_truthy name_v then Inr None
       else
         bind_result (py_get kw_data ''args'' (JArr [])) (\<lambda>args_v.
         bind_result (py_iter args_v) (\<lambda>args_list.
         bind_result (args_loop args_list []) (\<lambda>args_parts.
         bind_result (py_strs args_parts) (\<lambda>parts.
         bind_result (py_get kw_data ''shortdoc'' (JStr [])) (\<lambda>doc_v.
         bind_result (py_str doc_v) (\<lambda>doc0.
         bind_result (py_str name_v) (\<lambda>nm.
         bind_result (py_get kw_data ''source'' (JStr [])) (\<lambda>src.
         bind_result (py_get kw_data ''lineno'' (JStr [])) (\<lambda>ln.
           Inr (Some \<lparr>name = nm,
                      id' = py_replace_char CHR '' '' ''%20'' nm,
                      args = py_join '', '' parts,
                      doc = unwrap_literals (remove_tags doc0),
                      library = library_name,
                      source = src,
                      lineno = ln\<rparr>)))))))))))"

fun keywords_loop ::
  "string \<Rightarrow> json list \<Rightarrow> (string, keyword) dict \<Rightarrow> parse_error + (string, keyword) dict" where
  "keywords_loop library_name [] keywords = Inr keywords"
| "keywords_loop library_name (kw_data # rest) keywords =
     (case keyword_of library_name kw_data of
        Inl err \<Rightarrow> Inl err
      | Inr None \<Rightarrow> keywords_loop library_name rest keywords
      | Inr (Some kw) \<Rightarrow> keywords_loop library_name rest (dict_set (name kw) kw keywords))"

definition normalize_keywords :: "string \<Rightarrow> json \<Rightarrow> parse_error + (string, keyword) dict" where
  "normalize_keywords library_name libdoc_data =
     bind_result (py_get libdoc_data ''keywords'' (JArr [])) (\<lambda>kws.
     bind_result (py_iter kws) (\<lambda>records. keywords_loop library_name records []))"

subsection \<open>The cache and what is outside the program\<close>

text \<open>
  The bytes of a cached document, as \<^verbatim>\<open>read_text(encoding='utf-8')\<close> sees them: text,
  or bytes that do not decode.
\<close>

datatype file_bytes = Text string | NotUtf8

record response =
  body :: file_bytes
  size_bytes :: nat

text \<open>
  What the program calls and does not define: the network (\<open>Inl\<close> is the message of the
  error raised), the tokenizer of \<^verbatim>\<open>HTMLParser\<close>, \<^verbatim>\<open>json.loads\<close>, the clock (its
  \<open>n\<close>-th reading) and \<^verbatim>\<open>re.compile(p, re.IGNORECASE)\<close> (\<open>None\<close> is \<^verbatim>\<open>re.error\<close>).
\<close>

record env =
  urlopen :: "string \<Rightarrow> string + response"
  html_feed :: "string \<Rightarrow> html_event list"
  json_loads :: "string \<Rightarrow> string + json"
  datetime_now :: "nat \<Rightarrow> string"
  re_compile :: "string \<Rightarrow> (string \<Rightarrow> bool) option"

text \<open>
  The files under \<^verbatim>\<open>CACHE_DIR\<close>: \<^verbatim>\<open>DOCS_FILE\<close>, \<^verbatim>\<open>INDEX_FILE\<close>, \<^verbatim>\<open>KEYWORDS_INDEX\<close> and one
  document per library; the requests made so far and the number of clock readings.
\<close>

record world =
  docs_file :: "file_bytes option"
  index_file :: "section_index option"
  keywords_file :: "keywords_index option"
  library_files :: "string \<Rightarrow> file_bytes option"
  requests :: "string list"
  now_calls :: nat

definition CACHE_DIR :: string where
  "CACHE_DIR = ''/tmp/rf_docs_cache''"

datatype slot = DocsSlot | LibrarySlot string

definition slot_path :: "slot \<Rightarrow> string" where
  "slot_path target =
     (case target of
        DocsSlot \<Rightarrow> CACHE_DIR @ ''/RobotFrameworkUserGuide_'' @ RF_VERSION @ ''.html''
      | LibrarySlot library_name \<Rightarrow> CACHE_DIR @ ''/'' @ library_name @ ''_'' @ RF_VERSION @ ''.html'')"

definition write_slot :: "slot \<Rightarrow> file_bytes \<Rightarrow> world \<Rightarrow> world" where
  "write_slot target bytes w =
     (case target of
        DocsSlot \<Rightarrow> w\<lparr>docs_file := Some bytes\<rparr>
      | LibrarySlot library_name \<Rightarrow>
          w\<lparr>library_files := (library_files w)(library_name := Some bytes)\<rparr>)"

datatype download_result =
    Downloaded string nat string
  | DownloadError string string
  | Cached string

fun dl_success :: "download_result \<Rightarrow> bool" where
  "dl_success (Downloaded path n u) = True"
| "dl_success (DownloadError msg u) = False"
| "dl_success (Cached path) = True"

definition download_file :: "env \<Rightarrow> string \<Rightarrow> slot \<Rightarrow> world \<Rightarrow> download_result \<times> world" where
  "download_file e u target_path w =
     (case urlopen e u of
        Inl msg \<Rightarrow> (DownloadError msg u, w\<lparr>requests := requests w @ [u]\<rparr>)
      | Inr resp \<Rightarrow>
          (Downloaded (slot_path target_path) (size_bytes resp) u,
           write_slot target_path (body resp) (w\<lparr>requests := requests w @ [u]\<rparr>)))"

datatype indexing_result =
    DocsNotDownloaded
  | Indexed nat string
  | IndexingError

definition INDEX_FILE :: string where
  "INDEX_FILE = CACHE_DIR @ ''/docs_index_'' @ RF_VERSION @ ''.json''"

definition KEYWORDS_INDEX :: string where
  "KEYWORDS_INDEX = CACHE_DIR @ ''/all_keywords_'' @ RF_VERSION @ ''.json''"

definition parse_documentation :: "env \<Rightarrow> world \<Rightarrow> indexing_result \<times> world" where
  "parse_documentation e w =
     (case docs_file w of
        None \<Rightarrow> (DocsNotDownloaded, w)
      | Some NotUtf8 \<Rightarrow> (IndexingError, w)
      | Some (Text html_content) \<Rightarrow>
          (let sections = extract_sections (html_feed e html_content);
               index = \<lparr>si_version = RF_VERSION,
                        si_parsed_at = datetime_now e (now_calls w),
                        total_sections = length sections,
                        si_sections = sections\<rparr>
           in (Indexed (length sections) INDEX_FILE,
               w\<lparr>now_calls := Suc (now_calls w), index_file := Some index\<rparr>)))"

record keywords_result =
  kr_library :: string
  kr_keywords :: "(string, keyword) dict"
  kr_total_keywords :: nat

text \<open>What \_parse\_library\_keywords does with the cached document it finds, if any.\<close>

definition parse_cached :: "env \<Rightarrow> string \<Rightarrow> file_bytes option \<Rightarrow> parse_error + keywords_result" where
  "parse_cached e library_name library_file =
     (case library_file of
        None \<Rightarrow> Inl NotDownloaded
      | Some NotUtf8 \<Rightarrow> Inl ParsingError
      | Some (Text html_content) \<Rightarrow>
          bind_result (decode_libdoc (json_loads e) html_content) (\<lambda>libdoc_data.
          bind_result (normalize_keywords library_name libdoc_data) (\<lambda>keywords.
            Inr \<lparr>kr_library = library_name, kr_keywords = keywords,
                 kr_total_keywords = length keywords\<rparr>)))"

definition parse_library_keywords :: "env \<Rightarrow> world \<Rightarrow> string \<Rightarrow> parse_error + keywords_result" where
  "parse_library_keywords e w library_name =
     parse_cached e library_name (library_files w library_name)"

subsection \<open>The index builder: fetch\_rf\_documentation\<close>

record library_status =
  ls_success :: bool
  ls_total_keywords :: nat

record keywords_index_info =
  kii_path :: string
  kii_total_libraries :: nat
  kii_total_keywords :: nat

record fetch_report =
  fr_version :: string
  cache_location :: string
  files_downloaded :: "string list"
  fr_libraries :: "(string, library_status) dict"
  user_guide :: download_result
  indexing :: "indexing_result option"
  fr_keywords_index :: "keywords_index_info option"
  fr_success :: bool

text \<open>What the loop over \<^verbatim>\<open>STANDARD_LIBRARIES\<close> changes.\<close>

record fetch_state =
  fs_world :: world
  fs_files_downloaded :: "string list"
  fs_libraries :: "(string, library_status) dict"
  all_keywords :: "(string, (string, keyword) dict) dict"
  fs_total_keywords :: nat

definition library_url :: "string \<Rightarrow> string" where
  "library_url library_name = RF_BASE_LIB_URL @ ''/'' @ library_name @ ''.html''"

text \<open>\<^verbatim>\<open>if force_refresh or not library_file.exists(): ...\<close>, lines 342 to 345.\<close>

definition library_download :: "env \<Rightarrow> bool \<Rightarrow> string \<Rightarrow> fetch_state \<Rightarrow> fetch_state" where
  "library_download e force_refresh library_name st =
     (if force_refresh \<or> library_files (fs_world st) library_name = None then
        (case download_file e (library_url library_name) (LibrarySlot library_name) (fs_world st) of
           (result, w') \<Rightarrow>
             st\<lparr>fs_world := w',
                fs_files_downloaded :=
                  (if dl_success result then fs_files_downloaded st @ [library_name @ ''.html'']
                   else fs_files_downloaded st)\<rparr>)
      else st)"

text \<open>\<^verbatim>\<open>if library_file.exists(): ...\<close>, lines 348 to 357.\<close>

definition library_parse :: "env \<Rightarrow> string \<Rightarrow> fetch_state \<Rightarrow> fetch_state" where
  "library_parse e library_name st =
     (if library_files (fs_world st) library_name \<noteq> None then
        (case parse_library_keywords e (fs_world st) library_name of
           Inl err \<Rightarrow>
             st\<lparr>fs_libraries :=
                  dict_set library_name \<lparr>ls_success = False, ls_total_keywords = 0\<rparr> (fs_libraries st)\<rparr>
         | Inr keywords_result \<Rightarrow>
             st\<lparr>fs_libraries :=
                  dict_set library_name
                    \<lparr>ls_success = True, ls_total_keywords = kr_total_keywords keywords_result\<rparr>
                    (fs_libraries st),
                all_keywords := dict_set library_name (kr_keywords keywords_result) (all_keywords st),
                fs_total_keywords := fs_total_keywords st + kr_total_keywords keywords_result\<rparr>)
      else st)"

definition library_step :: "env \<Rightarrow> bool \<Rightarrow> fetch_state \<Rightarrow> string \<Rightarrow> fetch_state" where
  "library_step e force_refresh st library_name =
     library_parse e library_name (library_download e force_refresh library_name st)"

text \<open>Lines 315 to 331: the user guide.\<close>

definition fetch_user_guide :: "env \<Rightarrow> bool \<Rightarrow> world \<Rightarrow> download_result \<times> string list \<times> world" where
  "fetch_user_guide e force_refresh w =
     (if force_refresh \<or> docs_file w = None then
        (case download_file e RF_DOCS_URL DocsSlot w of
           (result, w') \<Rightarrow>
             (result, (if dl_success result then [''RobotFrameworkUserGuide.html''] else []), w'))
      else (Cached (slot_path DocsSlot), [], w))"

definition index_user_guide :: "env \<Rightarrow> world \<Rightarrow> indexing_result option \<times> world" where
  "index_user_guide e w =
     (if docs_file w \<noteq> None then
        (case parse_documentation e w of (parse_result, w') \<Rightarrow> (Some parse_result, w'))
      else (None, w))"

text \<open>Lines 359 to 374: the keyword index is written when \<open>all_keywords\<close> is not empty.\<close>

definition save_keywords_index :: "env \<Rightarrow> fetch_state \<Rightarrow> keywords_index_info option \<times> world" where
  "save_keywords_index e st =
     (let w = fs_world st in
      if all_keywords st \<noteq> [] then
        (Some \<lparr>kii_path = KEYWORDS_INDEX,
               kii_total_libraries = length (all_keywords st),
               kii_total_keywords = fs_total_keywords st\<rparr>,
         w\<lparr>now_calls := Suc (now_calls w),
           keywords_file :=
             Some \<lparr>ki_version = RF_VERSION,
                   ki_parsed_at = datetime_now e (now_calls w),
                   total_libraries = length (all_keywords st),
                   ki_total_keywords = fs_total_keywords st,
                   ki_libraries = all_keywords st\<rparr>\<rparr>)
      else (None, w))"

definition fetch_rf_documentation :: "env \<Rightarrow> bool \<Rightarrow> world \<Rightarrow> fetch_report \<times> world" where
  "fetch_rf_documentation e force_refresh w =
     (case fetch_user_guide e force_refresh w of (guide, downloaded, w1) \<Rightarrow>
      case index_user_guide e w1 of (parse_result, w2) \<Rightarrow>
      let st = foldl (library_step e force_refresh)
                 \<lparr>fs_world = w2, fs_files_downloaded = downloaded,
                  fs_libraries = [], all_keywords = [], fs_total_keywords = 0\<rparr>
                 STANDARD_LIBRARIES
      in case save_keywords_index e st of (info, w3) \<Rightarrow>
        (\<lparr>fr_version = RF_VERSION,
          cache_location = CACHE_DIR,
          files_downloaded = fs_files_downloaded st,
          fr_libraries = fs_libraries st,
          user_guide = guide,
          indexing = parse_result,
          fr_keywords_index = info,
          fr_success = dl_success guide\<rparr>, w3))"

subsection \<open>The query layer\<close>

datatype tool_error =
    SearchIndexNotFound
  | UnknownLibrary string
  | FetchFailed
  | ParseFailed parse_error
  | InvalidPattern
  | IndexReadFailed
  | LibraryNotFound string "string list"

record search_hit =
  hit_title :: string
  hit_id :: "string option"
  hit_level :: int
  relevance :: nat
  content_preview :: string
  url :: string

text \<open>The loop of lines 407 to 425.\<close>

fun search_loop :: "string \<Rightarrow> doc_section list \<Rightarrow> search_hit list" where
  "search_loop query_lower [] = []"
| "search_loop query_lower (sec # rest) =
     (let title_matches = py_count (py_lower (title sec)) query_lower;
          content_matches = py_count (py_lower (content sec)) query_lower
      in if title_matches > 0 \<or> content_matches > 0 then
           \<lparr>hit_title = title sec,
            hit_id = section_id sec,
            hit_level = level sec,
            relevance = title_matches * 10 + content_matches,
            content_preview = take 300 (content sec) @ ''...'',
            url = RF_DOCS_URL @ ''#'' @ py_format (section_id sec)\<rparr>
           # search_loop query_lower rest
         else search_loop query_lower rest)"

text \<open>
  \<^verbatim>\<open>results.sort(key=lambda x: x["relevance"], reverse=True)\<close>: Python's sort is stable,
  also with \<^verbatim>\<open>reverse=True\<close>.
\<close>

definition sorted_results :: "string \<Rightarrow> doc_section list \<Rightarrow> search_hit list" where
  "sorted_results query secs =
     sort_key (\<lambda>x. - int (relevance x)) (search_loop (py_lower query) secs)"

record search_output =
  so_version :: string
  so_query :: string
  total_matches :: nat
  results :: "search_hit list"

definition search_rf_documentation :: "world \<Rightarrow> string \<Rightarrow> int \<Rightarrow> tool_error + search_output" where
  "search_rf_documentation w query max_results =
     (case index_file w of
        None \<Rightarrow> Inl SearchIndexNotFound
      | Some index_data \<Rightarrow>
          (let rs = sorted_results query (si_sections index_data)
           in Inr \<lparr>so_version = RF_VERSION, so_query = query, total_matches = length rs,
                   results = py_slice_to max_results rs\<rparr>))"

record keyword_entry =
  ke_name :: string
  ke_library :: string
  ke_args :: string
  description :: string

text \<open>The list comprehension over \<^verbatim>\<open>sorted(keywords.items())\<close>.\<close>

definition keyword_list :: "string \<Rightarrow> (string, keyword) dict \<Rightarrow> keyword_entry list" where
  "keyword_list library_name keywords =
     map (\<lambda>kv. \<lparr>ke_name = fst kv, ke_library = library_name, ke_args = args (snd kv),
                description = take 200 (doc (snd kv))\<rparr>)
       (sort_key fst keywords)"

text \<open>
  \<^verbatim>\<open>if filter_pattern: ...\<close>: the filter a pattern stands for; \<open>None\<close> when the pattern does
  not compile.  An empty pattern is no pattern.
\<close>

definition compile_filter :: "env \<Rightarrow> string option \<Rightarrow> (string \<Rightarrow> bool) option" where
  "compile_filter e filter_pattern =
     (case filter_pattern of
        None \<Rightarrow> Some (\<lambda>k. True)
      | Some p \<Rightarrow> if p = [] then Some (\<lambda>k. True) else re_compile e p)"

text \<open>The data is there, or is fetched once: the flag is \<^verbatim>\<open>fetch_result.get("success")\<close>.\<close>

definition ensure_fetched :: "env \<Rightarrow> bool \<Rightarrow> world \<Rightarrow> bool \<times> world" where
  "ensure_fetched e missing w =
     (if missing then
        (case fetch_rf_documentation e False w of (fetch_result, w') \<Rightarrow> (fr_success fetch_result, w'))
      else (True, w))"

record library_listing =
  ll_version :: string
  ll_library :: string
  ll_total_keywords :: nat
  ll_keywords :: "keyword_entry list"

definition get_library_keywords ::
  "env \<Rightarrow> string \<Rightarrow> string option \<Rightarrow> world \<Rightarrow> (tool_error + library_listing) \<times> world" where
  "get_library_keywords e library_name filter_pattern w =
     (if library_name \<notin> set STANDARD_LIBRARIES then (Inl (UnknownLibrary library_name), w)
      else
        (case ensure_fetched e (library_files w library_name = None) w of
           (ok, w1) \<Rightarrow>
             if \<not> ok then (Inl FetchFailed, w1)
             else
               (case parse_library_keywords e w1 library_name of
                  Inl err \<Rightarrow> (Inl (ParseFailed err), w1)
                | Inr keywords_result \<Rightarrow>
                    (case compile_filter e filter_pattern of
                       None \<Rightarrow> (Inl InvalidPattern, w1)
                     | Some pattern \<Rightarrow>
                         (let keywords = filter (\<lambda>kv. pattern (fst kv)) (kr_keywords keywords_result);
                              entries = keyword_list library_name keywords
                          in (Inr \<lparr>ll_version = RF_VERSION, ll_library = library_name,
                                   ll_total_keywords = length entries,
                                   ll_keywords = entries\<rparr>, w1))))))"

record all_listing =
  al_version :: string
  al_total_keywords :: nat
  al_total_libraries :: nat
  al_libraries :: "(string, keyword_entry list) dict"

text \<open>Lines 524 to 552; with a filter, a library that keeps no keyword is left out.\<close>

definition filter_libraries ::
  "string option \<Rightarrow> (string \<Rightarrow> bool) \<Rightarrow> (string, (string, keyword) dict) dict
     \<Rightarrow> (string, (string, keyword) dict) dict" where
  "filter_libraries filter_pattern pattern all_libraries =
     (if filter_pattern = None \<or> filter_pattern = Some [] then all_libraries
      else filter (\<lambda>lk. snd lk \<noteq> [])
             (map (\<lambda>lk. (fst lk, filter (\<lambda>kv. pattern (fst kv)) (snd lk))) all_libraries))"

definition get_all_keywords ::
  "env \<Rightarrow> string option \<Rightarrow> world \<Rightarrow> (tool_error + all_listing) \<times> world" where
  "get_all_keywords e filter_pattern w =
     (case ensure_fetched e (keywords_file w = None) w of
        (ok, w1) \<Rightarrow>
          if \<not> ok then (Inl FetchFailed, w1)
          else
            (case keywords_file w1 of
               None \<Rightarrow> (Inl IndexReadFailed, w1)
             | Some index_data \<Rightarrow>
                 (case compile_filter e filter_pattern of
                    None \<Rightarrow> (Inl InvalidPattern, w1)
                  | Some pattern \<Rightarrow>
                      (let result_libraries =
                             map (\<lambda>lk. (fst lk, keyword_list (fst lk) (snd lk)))
                               (filter_libraries filter_pattern pattern (ki_libraries index_data))
                       in (Inr \<lparr>al_version = RF_VERSION,
                                al_total_keywords = sum_list (map (\<lambda>lk. length (snd lk)) result_libraries),
                                al_total_libraries = length result_libraries,
                                al_libraries = result_libraries\<rparr>, w1)))))"

text \<open>\<^verbatim>\<open>k.lower().replace("_", " ").replace("-", " ")\<close>\<close>

definition normalize_name :: "string \<Rightarrow> string" where
  "normalize_name k = py_replace_char CHR ''-'' '' '' (py_replace_char CHR ''_'' '' '' (py_lower k))"

datatype keyword_doc =
    Available string string string string string
  | NotAvailable string

text \<open>The two nested loops of lines 620 to 632; \<open>None\<close> when they end without a \<^verbatim>\<open>return\<close>.\<close>

fun find_keyword :: "string \<Rightarrow> string \<Rightarrow> (string, keyword) dict \<Rightarrow> keyword_doc option" where
  "find_keyword keyword_name_lower lib_name [] = None"
| "find_keyword keyword_name_lower lib_name ((k, v) # rest) =
     (if normalize_name k = keyword_name_lower then
        Some (Available k lib_name (args v) (doc v)
                (RF_BASE_LIB_URL @ ''/'' @ lib_name @ ''.html'' @ ''#'' @ id' v))
      else find_keyword keyword_name_lower lib_name rest)"

fun find_in_libraries ::
  "string \<Rightarrow> (string, (string, keyword) dict) dict \<Rightarrow> keyword_doc option" where
  "find_in_libraries keyword_name_lower [] = None"
| "find_in_libraries keyword_name_lower ((lib_name, keywords) # rest) =
     (case find_keyword keyword_name_lower lib_name keywords of
        Some found \<Rightarrow> Some found
      | None \<Rightarrow> find_in_libraries keyword_name_lower rest)"

text \<open>Lines 602 to 640, on the decoded keyword index.\<close>

definition lookup_keyword ::
  "(string, (string, keyword) dict) dict \<Rightarrow> string \<Rightarrow> string option \<Rightarrow> tool_error + keyword_doc" where
  "lookup_keyword all_libraries keyword_name library_name =
     (let selected =
            (case library_name of
               None \<Rightarrow> Inr all_libraries
             | Some l \<Rightarrow>
                 if l = [] then Inr all_libraries
                 else (case dict_get all_libraries l of
                         None \<Rightarrow> Inl (LibraryNotFound l (map fst all_libraries))
                       | Some keywords \<Rightarrow> Inr [(l, keywords)]))
      in case selected of
           Inl err \<Rightarrow> Inl err
         | Inr libraries_to_search \<Rightarrow>
             (case find_in_libraries (normalize_name keyword_name) libraries_to_search of
                Some found \<Rightarrow> Inr found
              | None \<Rightarrow> Inr (NotAvailable keyword_name)))"

definition get_keyword_documentation ::
  "env \<Rightarrow> string \<Rightarrow> string option \<Rightarrow> world \<Rightarrow> (tool_error + keyword_doc) \<times> world" where
  "get_keyword_documentation e keyword_name library_name w =
     (case ensure_fetched e (keywords_file w = None) w of
        (ok, w1) \<Rightarrow>
          if \<not> ok then (Inl FetchFailed, w1)
          else
            (case keywords_file w1 of
               None \<Rightarrow> (Inl IndexReadFailed, w1)
             | Some index_data \<Rightarrow>
                 (lookup_keyword (ki_libraries index_data) keyword_name library_name, w1)))"

subsection \<open>The search as the specification words it\<close>

definition spec_relevance :: "string \<Rightarrow> doc_section \<Rightarrow> nat" where
  "spec_relevance query sec =
     10 * py_count (py_lower (title sec)) (py_lower query)
     + 1 * py_count (py_lower (content sec)) (py_lower query)"

definition hit_of :: "string \<Rightarrow> doc_section \<Rightarrow> search_hit" where
  "hit_of query sec =
     \<lparr>hit_title = title sec, hit_id = section_id sec, hit_level = level sec,
      relevance = spec_relevance query sec,
      content_preview = take 300 (content sec) @ ''...'',
      url = RF_DOCS_URL @ ''#'' @ py_format (section_id sec)\<rparr>"

subsection \<open>The cache after a run\<close>

text \<open>
  The cached document of a library after the download step of a run, from the one
  before it: a download that fails leaves what was there.
\<close>

definition file_after :: "env \<Rightarrow> bool \<Rightarrow> string \<Rightarrow> file_bytes option \<Rightarrow> file_bytes option" where
  "file_after e force_refresh library_name cached =
     (if force_refresh \<or> cached = None then
        (case urlopen e (library_url library_name) of
           Inl msg \<Rightarrow> cached
         | Inr resp \<Rightarrow> Some (body resp))
      else cached)"

text \<open>The libraries of a list that parse, with their keywords, in the order of the list.\<close>

definition parsed_libraries ::
  "env \<Rightarrow> (string \<Rightarrow> file_bytes option) \<Rightarrow> string list \<Rightarrow> (string, (string, keyword) dict) dict" where
  "parsed_libraries e files libs =
     List.map_filter
       (\<lambda>l. case parse_cached e l (files l) of Inl err \<Rightarrow> None | Inr r \<Rightarrow> Some (l, kr_keywords r))
       libs"

text \<open>The state after the loop of a run.\<close>

definition loop_state :: "env \<Rightarrow> bool \<Rightarrow> world \<Rightarrow> fetch_state" where
  "loop_state e f w =
     foldl (library_step e f)
       \<lparr>fs_world = snd (index_user_guide e (snd (snd (fetch_user_guide e f w)))),
        fs_files_downloaded = fst (snd (fetch_user_guide e f w)),
        fs_libraries = [], all_keywords = [], fs_total_keywords = 0\<rparr>
       STANDARD_LIBRARIES"

text \<open>The entries of the report for the libraries of a list that have a cached document.\<close>

definition reported_libraries ::
  "env \<Rightarrow> (string \<Rightarrow> file_bytes option) \<Rightarrow> string list \<Rightarrow> (string, library_status) dict" where
  "reported_libraries e files libs =
     List.map_filter
       (\<lambda>l. case files l of
              None \<Rightarrow> None
            | Some bytes \<Rightarrow>
                Some (l, case parse_cached e l (Some bytes) of
                           Inl err \<Rightarrow> \<lparr>ls_success = False, ls_total_keywords = 0\<rparr>
                         | Inr r \<Rightarrow> \<lparr>ls_success = True, ls_total_keywords = kr_total_keywords r\<rparr>))
       libs"

text \<open>An index without its time stamp.\<close>

definition untimed_sections :: "section_index option \<Rightarrow> section_index option" where
  "untimed_sections idx = map_option (\<lambda>i. i\<lparr>si_parsed_at := []\<rparr>) idx"

definition untimed_keywords :: "keywords_index option \<Rightarrow> keywords_index option" where
  "untimed_keywords idx = map_option (\<lambda>i. i\<lparr>ki_parsed_at := []\<rparr>) idx"

subsection \<open>The sections of a document as the specification words them\<close>

fun is_heading_start :: "html_event \<Rightarrow> bool" where
  "is_heading_start (StartTag tag attrs) = (tag \<in> set heading_tags)"
| "is_heading_start _ = False"

fun is_heading_end :: "html_event \<Rightarrow> bool" where
  "is_heading_end (EndTag tag) = (tag \<in> set heading_tags)"
| "is_heading_end _ = False"

fun texts :: "html_event list \<Rightarrow> string list" where
  "texts [] = []"
| "texts (Data d # es) = d # texts es"
| "texts (_ # es) = texts es"

text \<open>The trimmed texts that are not empty.\<close>

definition text_pieces :: "html_event list \<Rightarrow> string list" where
  "text_pieces es = filter (\<lambda>t. t \<noteq> []) (map py_strip (texts es))"

text \<open>The title after the texts \<open>ds\<close>, from the title \<open>t\<close>: the last text wins.\<close>

definition last_title :: "string \<Rightarrow> string list \<Rightarrow> string" where
  "last_title t ds = (if ds = [] then t else py_strip (last ds))"

text \<open>
  For the events between a heading's start tag and the next heading's start tag: the
  title is read up to the first closing heading tag, the content after it.
\<close>

definition section_title :: "html_event list \<Rightarrow> string" where
  "section_title seg = last_title [] (texts (takeWhile (\<lambda>e. \<not> is_heading_end e) seg))"

definition section_content :: "html_event list \<Rightarrow> string" where
  "section_content seg = py_join '' '' (text_pieces (dropWhile (\<lambda>e. \<not> is_heading_end e) seg))"

definition section_of_heading ::
  "string \<Rightarrow> (string \<times> string option) list \<Rightarrow> html_event list \<Rightarrow> doc_section" where
  "section_of_heading tag attrs seg =
     \<lparr>section_id = attrs_id attrs, level = heading_level tag, title = section_title seg,
      content = section_content seg\<rparr>"

text \<open>One section for each heading start tag, in the order of the document.\<close>

fun sections_spec :: "html_event list \<Rightarrow> doc_section list" where
  "sections_spec [] = []"
| "sections_spec (StartTag tag attrs # es) =
     (if tag \<in> set heading_tags
      then section_of_heading tag attrs (takeWhile (\<lambda>e. \<not> is_heading_start e) es) # sections_spec es
      else sections_spec es)"
| "sections_spec (_ # es) = sections_spec es"

text \<open>A text with no white space at either end, and not empty.\<close>

definition trimmed :: "string \<Rightarrow> bool" where
  "trimmed p = (p \<noteq> [] \<and> \<not> py_isspace (hd p) \<and> \<not> py_isspace (last p))"

subsection \<open>Words of the specification about keywords\<close>

text \<open>The keyword records the loop stores, in the order of the input list.\<close>

definition stored_keywords :: "string \<Rightarrow> json list \<Rightarrow> keyword list" where
  "stored_keywords library_name records =
     List.map_filter
       (\<lambda>kw_data. case keyword_of library_name kw_data of Inr (Some kw) \<Rightarrow> Some kw | _ \<Rightarrow> None)
       records"

text \<open>
  An input record as the specification describes it: an object whose \<open>name\<close> and
  \<open>shortdoc\<close>, when there, are strings, and whose \<open>args\<close>, when there, is a list of
  objects with a string \<open>repr\<close>.
\<close>

fun is_str :: "json \<Rightarrow> bool" where
  "is_str (JStr s) = True"
| "is_str _ = False"

fun wf_arg :: "json \<Rightarrow> bool" where
  "wf_arg (JObj m) = (case map_of m ''repr'' of None \<Rightarrow> True | Some v \<Rightarrow> is_str v)"
| "wf_arg _ = False"

fun wf_args :: "json \<Rightarrow> bool" where
  "wf_args (JArr xs) = list_all wf_arg xs"
| "wf_args _ = False"

fun wf_record :: "json \<Rightarrow> bool" where
  "wf_record (JObj m) =
     ((case map_of m ''name'' of None \<Rightarrow> True | Some v \<Rightarrow> is_str v)
      \<and> (case map_of m ''shortdoc'' of None \<Rightarrow> True | Some v \<Rightarrow> is_str v)
      \<and> (case map_of m ''args'' of None \<Rightarrow> True | Some v \<Rightarrow> wf_args v))"
| "wf_record _ = False"

text \<open>The entries of a keyword index in the order the loops of the lookup visit them.\<close>

definition index_entries ::
  "(string, (string, keyword) dict) dict \<Rightarrow> (string \<times> string \<times> keyword) list" where
  "index_entries all_libraries =
     concat (map (\<lambda>lk. map (\<lambda>kv. (fst lk, fst kv, snd kv)) (snd lk)) all_libraries)"

definition doc_of_entry :: "string \<times> string \<times> keyword \<Rightarrow> keyword_doc" where
  "doc_of_entry ent =
     (case ent of (lib_name, k, v) \<Rightarrow>
        Available k lib_name (args v) (doc v)
          (RF_BASE_LIB_URL @ ''/'' @ lib_name @ ''.html'' @ ''#'' @ id' v))"

subsection \<open>Example data\<close>

definition example_sections :: "doc_section list" where
  "example_sections =
     [\<lparr>section_id = Some ''intro'', level = 1, title = ''Intro'', content = ''A library here''\<rparr>,
      \<lparr>section_id = Some ''lib'', level = 2, title = ''Library'', content = []\<rparr>,
      \<lparr>section_id = None, level = 2, title = ''Other'', content = ''nothing''\<rparr>]"

definition example_world :: world where
  "example_world =
     \<lparr>docs_file = None,
      index_file = Some \<lparr>si_version = RF_VERSION, si_parsed_at = ''t'', total_sections = 3,
                         si_sections = example_sections\<rparr>,
      keywords_file = None, library_files = (\<lambda>l. None), requests = [], now_calls = 0\<rparr>"

definition example_records :: "json list" where
  "example_records =
     [JObj [(''name'', JStr ''Log''), (''args'', JArr [JObj [(''repr'', JStr ''message'')]]),
            (''shortdoc'', JStr ''first''), (''lineno'', JInt 1)],
      JObj [(''name'', JStr []), (''shortdoc'', JStr ''nameless'')],
      JObj [(''name'', JStr ''Log''),
            (''args'', JArr [JObj [(''repr'', JStr ''message'')],
                             JObj [(''repr'', JStr ''level=INFO'')]]),
            (''shortdoc'', JStr ''<b>Logs</b> the ``message``.''),
            (''source'', JStr ''BuiltIn.py''), (''lineno'', JInt 7)]]"

definition example_libdoc :: json where
  "example_libdoc = JObj [(''name'', JStr ''BuiltIn''), (''keywords'', JArr example_records)]"

definition example_log :: keyword where
  "example_log =
     \<lparr>name = ''Log'', id' = ''Log'', args = ''message, level=INFO'', doc = ''Logs the message.'',
      library = ''BuiltIn'', source = JStr ''BuiltIn.py'', lineno = JInt 7\<rparr>"

definition example_kw :: "string \<Rightarrow> string \<Rightarrow> keyword" where
  "example_kw n d =
     \<lparr>name = n, id' = py_replace_char CHR '' '' ''%20'' n, args = ''name, *args'', doc = d,
      library = ''BuiltIn'', source = JStr [], lineno = JInt 1\<rparr>"

text \<open>An index in which a key that normalizes to \<open>run keyword\<close> stands before \<open>Run Keyword\<close>.\<close>

definition shadowed_libraries :: "(string, (string, keyword) dict) dict" where
  "shadowed_libraries =
     [(''BuiltIn'', [(''run_keyword'', example_kw ''run_keyword'' ''other''),
                     (''Run Keyword'', example_kw ''Run Keyword'' ''Executes the given keyword.'')])]"

definition plain_libraries :: "(string, (string, keyword) dict) dict" where
  "plain_libraries =
     [(''BuiltIn'', [(''Log'', example_log),
                     (''Run Keyword'', example_kw ''Run Keyword'' ''Executes the given keyword.'')])]"

definition world_with_keywords :: "(string, (string, keyword) dict) dict \<Rightarrow> world" where
  "world_with_keywords libs =
     \<lparr>docs_file = None, index_file = None,
      keywords_file =
        Some \<lparr>ki_version = RF_VERSION, ki_parsed_at = ''t'', total_libraries = length libs,
              ki_total_keywords = sum_list (map (\<lambda>lk. length (snd lk)) libs),
              ki_libraries = libs\<rparr>,
      library_files = (\<lambda>l. None), requests = [], now_calls = 0\<rparr>"

definition example_events :: "html_event list" where
  "example_events =
     [StartTag ''p'' [], Data ''lead'', EndTag ''p'',
      StartTag ''h1'' [(''id'', Some ''a'')], Data ''T1'', StartTag ''b'' [], Data '' T2 '',
      EndTag ''b'', EndTag ''h1'', Data '' text one '',
      StartTag ''h2'' [], Data ''Second'', EndTag ''h2'',
      StartTag ''p'' [], Data '' more '', EndTag ''p'', Data ''tail'']"

text \<open>A network that answers no request, and one that has every document but Telnet's.\<close>

definition offline_env :: env where
  "offline_env =
     \<lparr>urlopen = (\<lambda>u. Inl ''URL Error: unreachable''),
      html_feed = (\<lambda>h. []),
      json_loads = (\<lambda>t. Inl ''Expecting value''),
      datetime_now = (\<lambda>n. ''2025-01-01T00:00:00''),
      re_compile = (\<lambda>p. None)\<rparr>"

definition telnet_missing_env :: env where
  "telnet_missing_env =
     \<lparr>urlopen = (\<lambda>u. if u = library_url ''Telnet'' then Inl ''HTTP Error 404: Not Found''
                    else Inr \<lparr>body = Text ''libdoc = {}'', size_bytes = 11\<rparr>),
      html_feed = (\<lambda>h. []),
      json_loads = (\<lambda>t. Inr (JObj [])),
      datetime_now = (\<lambda>n. ''2025-01-01T00:00:00''),
      re_compile = (\<lambda>p. None)\<rparr>"

definition empty_world :: world where
  "empty_world =
     \<lparr>docs_file = None, index_file = None, keywords_file = None, library_files = (\<lambda>l. None),
      requests = [], now_calls = 0\<rparr>"

text \<open>Two caches with the same index files and different documents of the BuiltIn library.\<close>

definition world_with_builtin :: "string \<Rightarrow> world" where
  "world_with_builtin html =
     (world_with_keywords plain_libraries)
       \<lparr>library_files := (\<lambda>l. if l = ''BuiltIn'' then Some (Text html) else None)\<rparr>"

section \<open>Properties\<close>

subsection \<open>The brace scanner\<close>

lemma skipped_Nil: "skipped []"
  by (simp add: skipped_def)

lemma skipped_append: "skipped x \<Longrightarrow> skipped y \<Longrightarrow> skipped (x @ y)"
  by (simp add: skipped_def add.assoc)

lemma skipped_plain:
  "c \<noteq> backslash \<Longrightarrow> c \<noteq> dquote \<Longrightarrow> c \<noteq> CHR ''{'' \<Longrightarrow> c \<noteq> CHR ''}'' \<Longrightarrow> skipped [c]"
  by (simp add: skipped_def)

lemma skipped_all_plain:
  "\<forall>c \<in> set s. c \<noteq> backslash \<and> c \<noteq> dquote \<and> c \<noteq> CHR ''{'' \<and> c \<noteq> CHR ''}'' \<Longrightarrow> skipped s"
proof (induction s)
  case Nil
  show ?case by (rule skipped_Nil)
next
  case (Cons c s)
  have "skipped [c]" using Cons.prems by (intro skipped_plain) simp_all
  moreover have "skipped s" using Cons by simp
  ultimately have "skipped ([c] @ s)" by (rule skipped_append)
  then show ?case by simp
qed

lemma ws_char_plain:
  "c \<in> set [CHR 0x20, CHR 0x09, CHR 0x0A, CHR 0x0D] \<Longrightarrow>
   c \<noteq> backslash \<and> c \<noteq> dquote \<and> c \<noteq> CHR ''{'' \<and> c \<noteq> CHR ''}''"
  by auto

lemma digit_char_plain:
  "c \<in> set ''0123456789'' \<Longrightarrow>
   c \<noteq> backslash \<and> c \<noteq> dquote \<and> c \<noteq> CHR ''{'' \<and> c \<noteq> CHR ''}''"
  by auto

lemma skipped_ws: "json_ws w \<Longrightarrow> skipped w"
proof (rule skipped_all_plain, rule ballI)
  fix c
  assume "json_ws w" and "c \<in> set w"
  then have "c \<in> set [CHR 0x20, CHR 0x09, CHR 0x0A, CHR 0x0D]"
    unfolding json_ws_def list_all_iff by blast
  then show "c \<noteq> backslash \<and> c \<noteq> dquote \<and> c \<noteq> CHR ''{'' \<and> c \<noteq> CHR ''}''"
    by (rule ws_char_plain)
qed

lemma skipped_digits: "json_digits ds \<Longrightarrow> skipped ds"
proof (rule skipped_all_plain, rule ballI)
  fix c
  assume "json_digits ds" and "c \<in> set ds"
  then have "c \<in> set ''0123456789''"
    unfolding json_digits_def list_all_iff by blast
  then show "c \<noteq> backslash \<and> c \<noteq> dquote \<and> c \<noteq> CHR ''{'' \<and> c \<noteq> CHR ''}''"
    by (rule digit_char_plain)
qed

lemma skipped_int: "json_int s \<Longrightarrow> skipped s"
proof (induction rule: json_int.induct)
  case int_zero
  show ?case by (rule skipped_all_plain) simp
next
  case (int_pos d ds)
  have "skipped [d]" using int_pos(1) by (intro skipped_plain) auto
  moreover have "skipped ds" using int_pos(2) by (rule skipped_digits)
  ultimately have "skipped ([d] @ ds)" by (rule skipped_append)
  then show ?case by simp
next
  case (int_neg s)
  have "skipped ([CHR ''-''] @ s)" using int_neg.IH by (intro skipped_append skipped_plain) simp_all
  then show ?case by simp
qed

lemma skipped_frac: "json_frac f \<Longrightarrow> skipped f"
proof (induction rule: json_frac.induct)
  case frac_none
  show ?case by (rule skipped_Nil)
next
  case (frac_some ds)
  have "skipped ([CHR ''.''] @ ds)"
    using frac_some(1) by (intro skipped_append skipped_plain skipped_digits) simp_all
  then show ?case by simp
qed

lemma skipped_exp: "json_exp e \<Longrightarrow> skipped e"
proof (induction rule: json_exp.induct)
  case exp_none
  show ?case by (rule skipped_Nil)
next
  case (exp_some e sg ds)
  have "skipped [e]" using exp_some(1) by (intro skipped_plain) auto
  moreover have "skipped sg" using exp_some(2) by (intro skipped_all_plain) auto
  moreover have "skipped ds" using exp_some(3) by (rule skipped_digits)
  ultimately have "skipped ([e] @ sg @ ds)" by (intro skipped_append)
  then show ?case by simp
qed

lemma skipped_number: "json_number n \<Longrightarrow> skipped n"
  by (induction rule: json_number.induct) (intro skipped_append skipped_int skipped_frac skipped_exp)

text \<open>Inside a string the scanner reads the characters of a string token and stays inside.\<close>

lemma scan_json_chars:
  "json_chars b \<Longrightarrow>
   scan_braces (b @ rest) i d True False = scan_braces rest (i + length b) d True False"
proof (induction arbitrary: i rule: json_chars.induct)
  case chars_nil
  show ?case by simp
next
  case (chars_plain c s)
  then show ?case by simp
next
  case (chars_escape c s)
  then show ?case by simp
next
  case (chars_unicode a b c d s)
  have "\<And>h. hex_digit h \<Longrightarrow> h \<noteq> backslash \<and> h \<noteq> dquote"
    by (auto simp: hex_digit_def)
  with chars_unicode show ?case by simp
qed

lemma skipped_string: "json_chars b \<Longrightarrow> skipped (dquote # b @ [dquote])"
  by (simp add: skipped_def scan_json_chars)

lemma skipped_braces: "skipped x \<Longrightarrow> skipped (CHR ''{'' # x @ ''}'')"
  by (simp add: skipped_def)

lemma skipped_brackets: "skipped x \<Longrightarrow> skipped (CHR ''['' # x @ '']'')"
proof -
  assume x: "skipped x"
  have "skipped (''['' @ x @ '']'')"
    by (intro skipped_append x skipped_plain) simp_all
  then show ?thesis by simp
qed

lemma skipped_colon: "skipped '':''"
  by (rule skipped_plain) simp_all

lemma skipped_comma: "skipped '',''"
  by (rule skipped_plain) simp_all

lemma skipped_json:
  shows "json_value v \<Longrightarrow> skipped v"
    and "json_members m \<Longrightarrow> skipped m"
    and "json_elements e \<Longrightarrow> skipped e"
proof (induction rule: json_value_json_members_json_elements.inducts)
  case (val_string b)
  then show ?case by (rule skipped_string)
next
  case (val_number n)
  then show ?case by (rule skipped_number)
next
  case val_true
  show ?case by (rule skipped_all_plain) simp
next
  case val_false
  show ?case by (rule skipped_all_plain) simp
next
  case val_null
  show ?case by (rule skipped_all_plain) simp
next
  case (val_empty_object w)
  then show ?case by (intro skipped_braces skipped_ws)
next
  case (val_object m)
  then show ?case by (intro skipped_braces)
next
  case (val_empty_array w)
  then show ?case by (intro skipped_brackets skipped_ws)
next
  case (val_array e)
  then show ?case by (intro skipped_brackets)
next
  case (member_last w1 k w2 w3 v w4)
  have "skipped (dquote # k @ [dquote])" using member_last(2) by (rule skipped_string)
  with member_last show ?case
    by (intro skipped_append skipped_colon) (simp_all add: skipped_ws)
next
  case (member_more w1 k w2 w3 v w4 m)
  have "skipped (dquote # k @ [dquote])" using member_more(2) by (rule skipped_string)
  with member_more show ?case
    by (intro skipped_append skipped_colon skipped_comma) (simp_all add: skipped_ws)
next
  case (element_last w1 v w2)
  then show ?case by (intro skipped_append) (simp_all add: skipped_ws)
next
  case (element_more w1 v w2 e)
  then show ?case by (intro skipped_append skipped_comma) (simp_all add: skipped_ws)
qed

text \<open>From depth 0, the scan of an object stops right after its closing brace.\<close>

lemma scan_json_object:
  assumes "json_object j"
  shows "scan_braces (j @ rest) i 0 False False = Some (i + length j)"
  using assms
proof (cases rule: json_object.cases)
  case (object_empty w)
  have "skipped w" using object_empty(2) by (rule skipped_ws)
  then show ?thesis using object_empty(1) by (simp add: skipped_def)
next
  case (object_members m)
  have "skipped m" using object_members(2) by (rule skipped_json)
  then show ?thesis using object_members(1) by (simp add: skipped_def)
qed

text \<open>The scanner stops at the first index where the depth is back at 0.\<close>

lemma scan_braces_bound:
  "scan_braces s i d q e = Some k \<Longrightarrow> i < k \<and> k \<le> i + length s"
proof (induction s arbitrary: i d q e)
  case Nil
  then show ?case by simp
next
  case (Cons c s)
  show ?case
  proof (cases "scan_braces (c # s) i d q e = Some (Suc i)")
    case True
    with Cons.prems show ?thesis by simp
  next
    case False
    then obtain d' q' e' where "scan_braces (c # s) i d q e = scan_braces s (Suc i) d' q' e'"
      by (simp split: if_splits)
    with Cons.prems have "scan_braces s (Suc i) d' q' e' = Some k" by simp
    from Cons.IH [OF this] show ?thesis by simp
  qed
qed

lemma scan_braces_Cons_cases:
  obtains (stop) "\<And>u. scan_braces (c # u) i d q e = Some (Suc i)"
  | (continue) d' q' e' where "\<And>u. scan_braces (c # u) i d q e = scan_braces u (Suc i) d' q' e'"
proof (cases "e \<or> c = backslash \<or> c = dquote \<or> q")
  case True
  then consider "e" | "\<not> e" "c = backslash" | "\<not> e" "c \<noteq> backslash" "c = dquote"
    | "\<not> e" "c \<noteq> backslash" "c \<noteq> dquote" "q" by blast
  then show ?thesis
  proof cases
    case 1
    then have "scan_braces (c # u) i d q e = scan_braces u (Suc i) d q False" for u by simp
    then show ?thesis by (rule continue)
  next
    case 2
    then have "scan_braces (c # u) i d q e = scan_braces u (Suc i) d q True" for u by simp
    then show ?thesis by (rule continue)
  next
    case 3
    then have "scan_braces (c # u) i d q e = scan_braces u (Suc i) d (\<not> q) False" for u by simp
    then show ?thesis by (rule continue)
  next
    case 4
    then have "scan_braces (c # u) i d q e = scan_braces u (Suc i) d q False" for u by simp
    then show ?thesis by (rule continue)
  qed
next
  case False
  then have plain: "\<not> e" "c \<noteq> backslash" "c \<noteq> dquote" "\<not> q" by simp_all
  consider "c = CHR ''{''" | "c = CHR ''}''" "d - 1 = 0" | "c = CHR ''}''" "d - 1 \<noteq> 0"
    | "c \<noteq> CHR ''{''" "c \<noteq> CHR ''}''" by blast
  then show ?thesis
  proof cases
    case 1
    with plain have "scan_braces (c # u) i d q e = scan_braces u (Suc i) (d + 1) False False" for u
      by simp
    then show ?thesis by (rule continue)
  next
    case 2
    with plain have "scan_braces (c # u) i d q e = Some (Suc i)" for u by simp
    then show ?thesis by (rule stop)
  next
    case 3
    with plain have "scan_braces (c # u) i d q e = scan_braces u (Suc i) (d - 1) False False" for u
      by simp
    then show ?thesis by (rule continue)
  next
    case 4
    with plain have "scan_braces (c # u) i d q e = scan_braces u (Suc i) d False False" for u
      by simp
    then show ?thesis by (rule continue)
  qed
qed

lemma scan_braces_prefix:
  "scan_braces s i d q e = Some k \<Longrightarrow> scan_braces (s @ t) i d q e = Some k"
proof (induction s arbitrary: i d q e)
  case Nil
  then show ?case by simp
next
  case (Cons c s)
  show ?case
  proof (cases rule: scan_braces_Cons_cases [where c=c and i=i and d=d and q=q and e=e])
    case stop
    from Cons.prems stop [of s] stop [of "s @ t"] show ?thesis by simp
  next
    case (continue d' q' e')
    from Cons.prems continue [of s] have "scan_braces s (Suc i) d' q' e' = Some k" by simp
    from Cons.IH [OF this] continue [of "s @ t"] show ?thesis by simp
  qed
qed
lemma scan_braces_minimal:
  assumes "scan_braces (j @ rest) i d q e = Some (i + length j)" and "n < length j"
  shows "scan_braces (take n j) i d q e = None"
proof (rule ccontr)
  assume "scan_braces (take n j) i d q e \<noteq> None"
  then obtain k where k: "scan_braces (take n j) i d q e = Some k" by auto
  from scan_braces_bound [OF k] assms(2) have "k < i + length j" by simp
  moreover from scan_braces_prefix [OF k, of "drop n j @ rest"]
  have "scan_braces (j @ rest) i d q e = Some k"
    by (metis append.assoc append_take_drop_id)
  ultimately show False using assms(1) by simp
qed


text \<open>
  Claim C1.  When the first match of the anchor \<^verbatim>\<open>libdoc\s*=\s*\{\<close> ends at the opening
  brace of a well-formed JSON object \<open>j\<close> (whatever follows it), the extractor returns
  exactly \<open>j\<close>: the scan stops at the closing brace of \<open>j\<close>, no shorter prefix of \<open>j\<close>
  ends it, and what is decoded is \<^verbatim>\<open>json.loads\<close> of that span.
\<close>

theorem brace_matching_correct:
  assumes "re_search_libdoc html_content 0 = Some match_end"
    and "drop (match_end - 1) html_content = j @ rest"
    and "json_object j"
  shows "extract_libdoc_json html_content = Inr j \<and>
    scan_braces (drop (match_end - 1) html_content) (match_end - 1) 0 False False
      = Some (match_end - 1 + length j) \<and>
    (\<forall>n < length j. scan_braces (take n j) (match_end - 1) 0 False False = None) \<and>
    decode_libdoc loads html_content =
      (case loads j of Inl msg \<Rightarrow> Inl (JSONDecodeError msg) | Inr v \<Rightarrow> Inr v)"
proof -
  have scan: "scan_braces (j @ rest) (match_end - 1) 0 False False
      = Some (match_end - 1 + length j)"
    using assms(3) by (rule scan_json_object)
  then have ex: "extract_libdoc_json html_content = Inr j"
    using assms(1,2) by (simp add: extract_libdoc_json_def)
  have "\<forall>n < length j. scan_braces (take n j) (match_end - 1) 0 False False = None"
    using scan scan_braces_minimal by blast
  with scan ex assms(2) show ?thesis
    by (simp add: decode_libdoc_def)
qed

theorem brace_matching_correct_witness:
  "extract_libdoc_json
     (''x libdoc = '' @ [CHR ''{'', dquote, CHR ''a'', dquote, CHR '':'', dquote, CHR ''}'', dquote, CHR ''}''] @ ''; }'')
   = Inr [CHR ''{'', dquote, CHR ''a'', dquote, CHR '':'', dquote, CHR ''}'', dquote, CHR ''}'']"
proof -
  let ?j = "[CHR ''{'', dquote, CHR ''a'', dquote, CHR '':'', dquote, CHR ''}'', dquote, CHR ''}'']"
  let ?html = "''x libdoc = '' @ ?j @ ''; }''"
  have ws: "json_ws []" by (simp add: json_ws_def)
  have a: "json_chars ''a''" by (intro json_chars.intros) simp_all
  have b: "json_chars ''}''" by (intro json_chars.intros) simp_all
  have v: "json_value (dquote # ''}'' @ [dquote])" using b by (rule val_string)
  have "json_members ([] @ (dquote # ''a'' @ [dquote]) @ [] @ '':'' @ [] @ (dquote # ''}'' @ [dquote]) @ [])"
    using ws a ws ws v ws by (rule member_last)
  then have "json_object (CHR ''{'' # ([] @ (dquote # ''a'' @ [dquote]) @ [] @ '':'' @ [] @ (dquote # ''}'' @ [dquote]) @ []) @ ''}'')"
    by (rule object_members)
  then have obj: "json_object ?j" by simp
  have m: "re_search_libdoc ?html 0 = Some 12"
    by (simp add: match_libdoc_here_def py_isspace_def)
  have d: "drop (12 - 1) ?html = ?j @ ''; }''" by simp
  from brace_matching_correct [OF m d obj, of "\<lambda>_. Inl [] :: string + unit"]
  show ?thesis by simp
qed


subsection \<open>Section search\<close>

lemma py_count_empty: "py_count s [] = length s + 1"
  by (simp add: py_count.simps)

lemma search_loop_spec:
  "search_loop (py_lower query) secs =
     map (hit_of query) (filter (\<lambda>sec. 0 < spec_relevance query sec) secs)"
  by (induction secs) (auto simp: Let_def hit_of_def spec_relevance_def)

lemma sorted_results_mset:
  "mset (sorted_results query secs) =
     mset (map (hit_of query) (filter (\<lambda>sec. 0 < spec_relevance query sec) secs))"
  by (simp add: sorted_results_def search_loop_spec)

lemma sorted_results_descending:
  "sorted_wrt (\<lambda>a b. relevance b \<le> relevance a) (sorted_results query secs)"
proof -
  have "sorted (map (\<lambda>x. - int (relevance x)) (sorted_results query secs))"
    unfolding sorted_results_def by (rule sorted_sort_key)
  then show ?thesis by (simp add: sorted_map)
qed

lemma sorted_results_stable:
  "filter (\<lambda>r. relevance r = k) (sorted_results query secs) =
     map (hit_of query) (filter (\<lambda>sec. spec_relevance query sec = k \<and> 0 < k) secs)"
proof -
  have "filter (\<lambda>r. - int (relevance r) = - int k) (sorted_results query secs) =
      filter (\<lambda>r. - int (relevance r) = - int k) (search_loop (py_lower query) secs)"
    unfolding sorted_results_def by (rule sort_key_stable)
  then have "filter (\<lambda>r. relevance r = k) (sorted_results query secs) =
      filter (\<lambda>r. relevance r = k) (search_loop (py_lower query) secs)"
    by simp
  also have "\<dots> = map (hit_of query) (filter (\<lambda>sec. spec_relevance query sec = k \<and> 0 < k) secs)"
    unfolding search_loop_spec
    by (induction secs) (auto simp: hit_of_def)
  finally show ?thesis .
qed

lemma descending_rank:
  assumes "sorted_wrt (\<lambda>a b. relevance b \<le> relevance a) rs"
    and "i < length rs" and "j < length rs" and "relevance (rs ! j) < relevance (rs ! i)"
  shows "i < j"
proof (rule ccontr)
  assume "\<not> i < j"
  with assms(4) have "j < i" by (cases "i = j") auto
  with assms(1,2) have "relevance (rs ! i) \<le> relevance (rs ! j)"
    by (simp add: sorted_wrt_iff_nth_less)
  with assms(4) show False by simp
qed

lemma py_slice_to_nonneg: "0 \<le> n \<Longrightarrow> py_slice_to n xs = take (nat n) xs"
  by (simp add: py_slice_to_def)

lemma example_sorted_results:
  "map hit_title (sorted_results ''LIBRARY'' example_sections) = [''Library'', ''Intro'']"
  by code_simp

text \<open>
  Claim C4.  With an index on disk, the search scores every section with 10 times the
  count of the lower-cased query in the lower-cased title plus the count in the
  lower-cased content, leaves out the sections that score 0, sorts what is left by
  falling score, sections of one score in the order of the index, and returns the
  slice \<^verbatim>\<open>[:max_results]\<close> of that list; a section with one hit in its title scores
  more, and so stands earlier, than a section with one hit in its content only.
\<close>

theorem search_relevance_ranking:
  assumes "index_file w = Some idx"
  shows "(\<exists>out. search_rf_documentation w query max_results = Inr out
      \<and> total_matches out = length (sorted_results query (si_sections idx))
      \<and> results out = py_slice_to max_results (sorted_results query (si_sections idx))
      \<and> (0 \<le> max_results \<longrightarrow>
            results out = take (nat max_results) (sorted_results query (si_sections idx))
            \<and> int (length (results out)) \<le> max_results))
    \<and> mset (sorted_results query (si_sections idx)) =
      mset (map (hit_of query) (filter (\<lambda>sec. 0 < spec_relevance query sec) (si_sections idx)))
    \<and> sorted_wrt (\<lambda>a b. relevance b \<le> relevance a) (sorted_results query (si_sections idx))
    \<and> (\<forall>k. filter (\<lambda>r. relevance r = k) (sorted_results query (si_sections idx)) =
      map (hit_of query) (filter (\<lambda>sec. spec_relevance query sec = k \<and> 0 < k) (si_sections idx)))
    \<and> (\<forall>i j. i < length (sorted_results query (si_sections idx))
        \<and> j < length (sorted_results query (si_sections idx))
        \<and> relevance (sorted_results query (si_sections idx) ! j)
            < relevance (sorted_results query (si_sections idx) ! i) \<longrightarrow> i < j)
    \<and> (\<forall>a b. py_count (py_lower (title a)) (py_lower query) = 1
        \<and> py_count (py_lower (title b)) (py_lower query) = 0
        \<and> py_count (py_lower (content b)) (py_lower query) = 1
        \<longrightarrow> spec_relevance query b < spec_relevance query a)"
proof (intro conjI)
  show "\<exists>out. search_rf_documentation w query max_results = Inr out
      \<and> total_matches out = length (sorted_results query (si_sections idx))
      \<and> results out = py_slice_to max_results (sorted_results query (si_sections idx))
      \<and> (0 \<le> max_results \<longrightarrow>
            results out = take (nat max_results) (sorted_results query (si_sections idx))
            \<and> int (length (results out)) \<le> max_results)"
    using assms by (auto simp: search_rf_documentation_def Let_def py_slice_to_nonneg)
  show "mset (sorted_results query (si_sections idx)) =
      mset (map (hit_of query) (filter (\<lambda>sec. 0 < spec_relevance query sec) (si_sections idx)))"
    by (rule sorted_results_mset)
  show "sorted_wrt (\<lambda>a b. relevance b \<le> relevance a) (sorted_results query (si_sections idx))"
    by (rule sorted_results_descending)
  show "\<forall>k. filter (\<lambda>r. relevance r = k) (sorted_results query (si_sections idx)) =
      map (hit_of query) (filter (\<lambda>sec. spec_relevance query sec = k \<and> 0 < k) (si_sections idx))"
    by (simp add: sorted_results_stable)
  show "\<forall>i j. i < length (sorted_results query (si_sections idx))
        \<and> j < length (sorted_results query (si_sections idx))
        \<and> relevance (sorted_results query (si_sections idx) ! j)
            < relevance (sorted_results query (si_sections idx) ! i) \<longrightarrow> i < j"
    using descending_rank [OF sorted_results_descending] by blast
  show "\<forall>a b. py_count (py_lower (title a)) (py_lower query) = 1
        \<and> py_count (py_lower (title b)) (py_lower query) = 0
        \<and> py_count (py_lower (content b)) (py_lower query) = 1
        \<longrightarrow> spec_relevance query b < spec_relevance query a"
    by (simp add: spec_relevance_def)
qed

theorem search_relevance_ranking_witness:
  "\<exists>out. search_rf_documentation example_world ''LIBRARY'' 1 = Inr out
      \<and> total_matches out = 2 \<and> map hit_title (results out) = [''Library'']"
proof -
  have idx: "index_file example_world = Some \<lparr>si_version = RF_VERSION, si_parsed_at = ''t'',
      total_sections = 3, si_sections = example_sections\<rparr>"
    by (simp add: example_world_def)
  have len: "length (sorted_results ''LIBRARY'' example_sections) = 2"
    using example_sorted_results by (metis length_map length_Cons list.size(3) numeral_2_eq_2)
  from search_relevance_ranking [OF idx, of "''LIBRARY''" 1]
  obtain out where out: "search_rf_documentation example_world ''LIBRARY'' 1 = Inr out"
    "total_matches out = length (sorted_results ''LIBRARY'' example_sections)"
    "results out = take (nat 1) (sorted_results ''LIBRARY'' example_sections)"
    by auto
  have "map hit_title (results out) = [''Library'']"
    using out(3) example_sorted_results by (simp add: take_map [symmetric])
  with out(1,2) len show ?thesis by simp
qed

text \<open>
  Claim C10.  For the empty query the count is the length plus one in every title and
  every content: no section is left out, \<open>total_matches\<close> is the number of sections of
  the index, and every hit has a relevance of 11 or more.
\<close>

theorem empty_query_matches_every_section:
  assumes "index_file w = Some idx"
  shows "(\<exists>out. search_rf_documentation w [] max_results = Inr out
      \<and> total_matches out = length (si_sections idx)
      \<and> (\<forall>r \<in> set (results out). 11 \<le> relevance r))
    \<and> search_loop (py_lower []) (si_sections idx) = map (hit_of []) (si_sections idx)
    \<and> (\<forall>sec. spec_relevance [] sec = 10 * (length (title sec) + 1) + (length (content sec) + 1))
    \<and> (\<forall>s. 0 < py_count (py_lower s) (py_lower []))"
proof -
  have rel: "spec_relevance [] sec = 10 * (length (title sec) + 1) + (length (content sec) + 1)"
    for sec
    by (simp add: spec_relevance_def py_lower_def py_count_empty)
  have loop: "search_loop (py_lower []) secs = map (hit_of []) secs" for secs
    by (simp add: search_loop_spec rel)
  have all: "\<forall>r \<in> set (sorted_results [] secs). 11 \<le> relevance r" for secs
  proof
    fix r
    assume "r \<in> set (sorted_results [] secs)"
    then have "r \<in> set (map (hit_of []) secs)"
      by (simp add: sorted_results_def loop del: set_map)
    then obtain sec where "r = hit_of [] sec" by auto
    then show "11 \<le> relevance r" by (simp add: hit_of_def rel)
  qed
  have len: "length (sorted_results [] secs) = length secs" for secs
    by (simp add: sorted_results_def loop)
  have "\<exists>out. search_rf_documentation w [] max_results = Inr out
      \<and> total_matches out = length (si_sections idx)
      \<and> (\<forall>r \<in> set (results out). 11 \<le> relevance r)"
    using assms all [of "si_sections idx"] len [of "si_sections idx"]
    by (auto simp: search_rf_documentation_def Let_def py_slice_to_def dest: in_set_takeD)
  moreover have "\<forall>s. 0 < py_count (py_lower s) (py_lower [])"
    by (simp add: py_lower_def py_count_empty)
  ultimately show ?thesis using rel loop by blast
qed

theorem empty_query_matches_every_section_witness:
  "\<exists>out. search_rf_documentation example_world [] 10 = Inr out \<and> total_matches out = 3"
proof -
  have idx: "index_file example_world = Some \<lparr>si_version = RF_VERSION, si_parsed_at = ''t'',
      total_sections = 3, si_sections = example_sections\<rparr>"
    by (simp add: example_world_def)
  from empty_query_matches_every_section [OF idx, of 10]
  show ?thesis by (auto simp: example_sections_def)
qed


subsection \<open>The keyword normalizer\<close>

lemma map_of_dict_set: "map_of (dict_set k v d) = (map_of d)(k \<mapsto> v)"
  by (induction d) (auto simp: fun_eq_iff)

lemma keys_dict_set: "set (map fst (dict_set k v d)) = insert k (set (map fst d))"
proof (induction d)
  case Nil
  show ?case by simp
next
  case (Cons p d)
  obtain k' v' where p: "p = (k', v')" by (cases p)
  show ?case
  proof (cases "k' = k")
    case True
    with p show ?thesis by simp
  next
    case False
    with p Cons.IH show ?thesis by (simp add: insert_commute)
  qed
qed

lemma distinct_dict_set: "distinct (map fst d) \<Longrightarrow> distinct (map fst (dict_set k v d))"
proof (induction d)
  case Nil
  then show ?case by simp
next
  case (Cons p d)
  obtain k' v' where p: "p = (k', v')" by (cases p)
  show ?case
  proof (cases "k' = k")
    case True
    with Cons.prems p show ?thesis by simp
  next
    case False
    have "k' \<notin> set (map fst (dict_set k v d))"
      using Cons.prems p False by (simp add: keys_dict_set del: set_map)
    with Cons p False show ?thesis by simp
  qed
qed

lemma values_dict_set:
  "(k', v') \<in> set (dict_set k v d) \<Longrightarrow> (k', v') = (k, v) \<or> (k', v') \<in> set d"
  by (induction d) (auto split: if_splits)

lemma bind_result_Inr:
  "bind_result r f = Inr y \<longleftrightarrow> (\<exists>x. r = Inr x \<and> f x = Inr y)"
  by (cases r) (simp_all add: bind_result_def)

lemma keyword_of_name:
  assumes "keyword_of library_name kw_data = Inr (Some kw)"
  shows "name kw \<noteq> [] \<and> py_get kw_data ''name'' (JStr []) = Inr (JStr (name kw))
    \<and> library kw = library_name \<and> id' kw = py_replace_char CHR '' '' ''%20'' (name kw)"
proof -
  from assms obtain name_v where nv: "py_get kw_data ''name'' (JStr []) = Inr name_v"
    and rest: "(if \<not> py_truthy name_v then Inr None
       else
         bind_result (py_get kw_data ''args'' (JArr [])) (\<lambda>args_v.
         bind_result (py_iter args_v) (\<lambda>args_list.
         bind_result (args_loop args_list []) (\<lambda>args_parts.
         bind_result (py_strs args_parts) (\<lambda>parts.
         bind_result (py_get kw_data ''shortdoc'' (JStr [])) (\<lambda>doc_v.
         bind_result (py_str doc_v) (\<lambda>doc0.
         bind_result (py_str name_v) (\<lambda>nm.
         bind_result (py_get kw_data ''source'' (JStr [])) (\<lambda>src.
         bind_result (py_get kw_data ''lineno'' (JStr [])) (\<lambda>ln.
           Inr (Some \<lparr>name = nm,
                      id' = py_replace_char CHR '' '' ''%20'' nm,
                      args = py_join '', '' parts,
                      doc = unwrap_literals (remove_tags doc0),
                      library = library_name,
                      source = src,
                      lineno = ln\<rparr>))))))))))) = Inr (Some kw)"
    unfolding keyword_of_def bind_result_Inr by blast
  have truthy: "py_truthy name_v" using rest by (auto split: if_splits)
  with rest obtain nm where nm: "py_str name_v = Inr nm" and "name kw = nm"
    and "library kw = library_name" and "id' kw = py_replace_char CHR '' '' ''%20'' nm"
    by (auto simp: bind_result_Inr)
  moreover from nm have "name_v = JStr nm" by (cases name_v) simp_all
  ultimately show ?thesis using nv truthy by auto
qed

lemma keyword_of_skips:
  assumes "py_get kw_data ''name'' (JStr []) = Inr v" and "\<not> py_truthy v"
  shows "keyword_of library_name kw_data = Inr None"
  using assms by (simp add: keyword_of_def bind_result_def)

lemma stored_keywords_Cons:
  "stored_keywords l (r # rs) =
     (case keyword_of l r of Inr (Some kw) \<Rightarrow> kw # stored_keywords l rs | _ \<Rightarrow> stored_keywords l rs)"
  by (simp add: stored_keywords_def List.map_filter_simps split: sum.splits option.splits)

lemma stored_keywords_Nil: "stored_keywords l [] = []"
  by (simp add: stored_keywords_def List.map_filter_simps)

lemma keywords_loop_spec:
  "keywords_loop l rs kws0 = Inr kws \<Longrightarrow>
     (\<forall>n. map_of kws n =
        (case filter (\<lambda>kw. name kw = n) (stored_keywords l rs) of
           [] \<Rightarrow> map_of kws0 n
         | x # xs \<Rightarrow> Some (last (x # xs))))
     \<and> (distinct (map fst kws0) \<longrightarrow> distinct (map fst kws))
     \<and> set kws \<subseteq> set kws0 \<union> (\<lambda>kw. (name kw, kw)) ` set (stored_keywords l rs)"
proof (induction rs arbitrary: kws0)
  case Nil
  then show ?case by (simp add: stored_keywords_Nil)
next
  case (Cons r rs)
  show ?case
  proof (cases "keyword_of l r")
    case (Inl err)
    with Cons.prems show ?thesis by simp
  next
    case (Inr ko)
    show ?thesis
    proof (cases ko)
      case None
      with Inr Cons.prems have "keywords_loop l rs kws0 = Inr kws" by simp
      from Cons.IH [OF this] Inr None show ?thesis by (simp add: stored_keywords_Cons)
    next
      case (Some kw)
      with Inr Cons.prems have "keywords_loop l rs (dict_set (name kw) kw kws0) = Inr kws" by simp
      note IH = Cons.IH [OF this]
      note ih = IH [THEN conjunct1]
      note ihd = IH [THEN conjunct2, THEN conjunct1]
      note ihs = IH [THEN conjunct2, THEN conjunct2]
      have st: "stored_keywords l (r # rs) = kw # stored_keywords l rs"
        using Inr Some by (simp add: stored_keywords_Cons)
      have a: "\<forall>n. map_of kws n =
          (case filter (\<lambda>kw. name kw = n) (stored_keywords l (r # rs)) of
             [] \<Rightarrow> map_of kws0 n
           | x # xs \<Rightarrow> Some (last (x # xs)))"
      proof
        fix n
        show "map_of kws n =
          (case filter (\<lambda>kw. name kw = n) (stored_keywords l (r # rs)) of
             [] \<Rightarrow> map_of kws0 n
           | x # xs \<Rightarrow> Some (last (x # xs)))"
        proof (cases "name kw = n")
          case True
          then show ?thesis
            using ih [rule_format, of n] unfolding st
            by (cases "filter (\<lambda>kw. name kw = n) (stored_keywords l rs)")
               (simp_all add: map_of_dict_set)
        next
          case False
          then show ?thesis
            using ih [rule_format, of n] unfolding st
            by (cases "filter (\<lambda>kw. name kw = n) (stored_keywords l rs)")
               (simp_all add: map_of_dict_set)
        qed
      qed
      have b: "distinct (map fst kws0) \<longrightarrow> distinct (map fst kws)"
        using ihd distinct_dict_set [of kws0 "name kw" kw] by simp
      have c: "set kws \<subseteq> set kws0 \<union> (\<lambda>kw. (name kw, kw)) ` set (stored_keywords l (r # rs))"
      proof
        fix p
        assume "p \<in> set kws"
        with ihs have "p \<in> set (dict_set (name kw) kw kws0)
            \<or> p \<in> (\<lambda>kw. (name kw, kw)) ` set (stored_keywords l rs)" by (rule UnE [OF subsetD]) simp_all
        moreover have "p \<in> set (dict_set (name kw) kw kws0) \<Longrightarrow> p = (name kw, kw) \<or> p \<in> set kws0"
          using values_dict_set [of "fst p" "snd p" "name kw" kw kws0] by simp
        ultimately consider "p = (name kw, kw)" | "p \<in> set kws0"
          | "p \<in> (\<lambda>kw. (name kw, kw)) ` set (stored_keywords l rs)"
          by metis
        then show "p \<in> set kws0 \<union> (\<lambda>kw. (name kw, kw)) ` set (stored_keywords l (r # rs))"
          unfolding st by cases simp_all
      qed
      show ?thesis by (rule conjI [OF a conjI [OF b c]])
    qed
  qed
qed

lemma stored_keywords_name: "kw \<in> set (stored_keywords l rs) \<Longrightarrow> name kw \<noteq> []"
proof (induction rs)
  case Nil
  then show ?case by (simp add: stored_keywords_Nil)
next
  case (Cons r rs)
  then show ?case
    using keyword_of_name [of l r]
    by (auto simp: stored_keywords_Cons split: sum.splits option.splits)
qed

lemma py_strs_total: "list_all is_str xs \<Longrightarrow> \<exists>ss. py_strs xs = Inr ss"
proof (induction xs)
  case Nil
  show ?case by simp
next
  case (Cons x xs)
  then obtain s where "x = JStr s" by (cases x) simp_all
  with Cons show ?case by auto
qed

lemma args_loop_total:
  "list_all wf_arg xs \<Longrightarrow> list_all is_str acc \<Longrightarrow>
   \<exists>parts. args_loop xs acc = Inr parts \<and> list_all is_str parts"
proof (induction xs arbitrary: acc)
  case Nil
  then show ?case by simp
next
  case (Cons x xs)
  then obtain m where x: "x = JObj m" by (cases x) simp_all
  obtain v where v: "py_get x ''repr'' (JStr []) = Inr v" and "is_str v"
    using Cons.prems(1) x by (auto split: option.splits)
  with Cons show ?case by simp
qed

lemma keyword_of_total: "wf_record r \<Longrightarrow> \<exists>ko. keyword_of l r = Inr ko"
proof -
  assume wf: "wf_record r"
  then obtain m where r: "r = JObj m" by (cases r) simp_all
  obtain name_v where nv: "py_get r ''name'' (JStr []) = Inr name_v" and ns: "is_str name_v"
    using wf r by (auto split: option.splits)
  obtain doc_v where dv: "py_get r ''shortdoc'' (JStr []) = Inr doc_v" and ds: "is_str doc_v"
    using wf r by (auto split: option.splits)
  obtain args_v where av: "py_get r ''args'' (JArr []) = Inr args_v" and aw: "wf_args args_v"
    using wf r by (auto split: option.splits)
  from aw obtain xs where xs: "args_v = JArr xs" "list_all wf_arg xs" by (cases args_v) simp_all
  from args_loop_total [OF xs(2), of "[]"] obtain parts0
    where p0: "args_loop xs [] = Inr parts0" "list_all is_str parts0" by auto
  from py_strs_total [OF p0(2)] obtain parts where p: "py_strs parts0 = Inr parts" by auto
  from ns obtain nm where nm: "name_v = JStr nm" by (cases name_v) simp_all
  from ds obtain d0 where d0: "doc_v = JStr d0" by (cases doc_v) simp_all
  show ?thesis
    using nv dv av xs(1) p0(1) p nm d0 r
    by (simp add: keyword_of_def bind_result_def)
qed

lemma keywords_loop_total:
  "list_all wf_record rs \<Longrightarrow> \<exists>kws. keywords_loop l rs kws0 = Inr kws"
proof (induction rs arbitrary: kws0)
  case Nil
  show ?case by simp
next
  case (Cons r rs)
  from Cons.prems have "wf_record r" and rs: "list_all wf_record rs" by simp_all
  from keyword_of_total [OF this(1), of l] obtain ko where "keyword_of l r = Inr ko" by auto
  with Cons.IH [OF rs] show ?case by (cases ko) simp_all
qed

lemma example_normalized:
  "normalize_keywords ''BuiltIn'' example_libdoc = Inr [(''Log'', example_log)]"
  by code_simp

text \<open>
  Claim C6.  On a decoded library whose \<open>keywords\<close> is a list, the normalizer is the
  loop over that list; it returns a mapping whenever the records are as the
  specification describes them; and a mapping it returns has each name once, holds
  under a name the record built from the last input record of that name, and has no
  entry for an input record whose name is empty or missing.  Two records of one name
  give one entry, with the values of the second.
\<close>

theorem keyword_normalizer_last_write_wins:
  assumes "py_get libdoc_data ''keywords'' (JArr []) = Inr (JArr records)"
  shows "normalize_keywords l libdoc_data = keywords_loop l records []
    \<and> (list_all wf_record records \<longrightarrow> (\<exists>kws. normalize_keywords l libdoc_data = Inr kws))
    \<and> (\<forall>kws. normalize_keywords l libdoc_data = Inr kws \<longrightarrow>
          distinct (map fst kws)
          \<and> (\<forall>n. dict_get kws n =
                (case filter (\<lambda>kw. name kw = n) (stored_keywords l records) of
                   [] \<Rightarrow> None
                 | x # xs \<Rightarrow> Some (last (x # xs))))
          \<and> (\<forall>k v. (k, v) \<in> set kws \<longrightarrow>
                name v = k \<and> k \<noteq> [] \<and> v \<in> set (stored_keywords l records)))
    \<and> (\<forall>r v. py_get r ''name'' (JStr []) = Inr v \<and> \<not> py_truthy v \<longrightarrow> keyword_of l r = Inr None)
    \<and> (\<forall>r1 r2 k1 k2. keyword_of l r1 = Inr (Some k1) \<and> keyword_of l r2 = Inr (Some k2)
          \<and> name k1 = name k2 \<longrightarrow> keywords_loop l [r1, r2] [] = Inr [(name k2, k2)])"
proof -
  have eq: "normalize_keywords l libdoc_data = keywords_loop l records []"
    using assms by (simp add: normalize_keywords_def bind_result_def)
  have total: "list_all wf_record records \<longrightarrow> (\<exists>kws. normalize_keywords l libdoc_data = Inr kws)"
    unfolding eq using keywords_loop_total by blast
  have props: "distinct (map fst kws)
      \<and> (\<forall>n. dict_get kws n =
            (case filter (\<lambda>kw. name kw = n) (stored_keywords l records) of
               [] \<Rightarrow> None
             | x # xs \<Rightarrow> Some (last (x # xs))))
      \<and> (\<forall>k v. (k, v) \<in> set kws \<longrightarrow>
            name v = k \<and> k \<noteq> [] \<and> v \<in> set (stored_keywords l records))"
    if "normalize_keywords l libdoc_data = Inr kws" for kws
  proof -
    from that eq have loop: "keywords_loop l records [] = Inr kws" by simp
    note spec = keywords_loop_spec [OF loop]
    have d: "distinct (map fst kws)" using spec [THEN conjunct2, THEN conjunct1] by simp
    have g: "\<forall>n. dict_get kws n =
        (case filter (\<lambda>kw. name kw = n) (stored_keywords l records) of
           [] \<Rightarrow> None
         | x # xs \<Rightarrow> Some (last (x # xs)))"
      using spec [THEN conjunct1] by (simp add: dict_get_def split: list.splits)
    have m: "\<forall>k v. (k, v) \<in> set kws \<longrightarrow>
        name v = k \<and> k \<noteq> [] \<and> v \<in> set (stored_keywords l records)"
    proof (intro allI impI)
      fix k v
      assume "(k, v) \<in> set kws"
      with spec [THEN conjunct2, THEN conjunct2]
      have "(k, v) \<in> (\<lambda>kw. (name kw, kw)) ` set (stored_keywords l records)" by auto
      then have "v \<in> set (stored_keywords l records)" and "name v = k" by auto
      then show "name v = k \<and> k \<noteq> [] \<and> v \<in> set (stored_keywords l records)"
        using stored_keywords_name [of v l records] by simp
    qed
    show ?thesis by (rule conjI [OF d conjI [OF g m]])
  qed
  have skip: "\<forall>r v. py_get r ''name'' (JStr []) = Inr v \<and> \<not> py_truthy v \<longrightarrow> keyword_of l r = Inr None"
    using keyword_of_skips by blast
  have two: "\<forall>r1 r2 k1 k2. keyword_of l r1 = Inr (Some k1) \<and> keyword_of l r2 = Inr (Some k2)
      \<and> name k1 = name k2 \<longrightarrow> keywords_loop l [r1, r2] [] = Inr [(name k2, k2)]"
    by simp
  from props have props': "\<forall>kws. normalize_keywords l libdoc_data = Inr kws \<longrightarrow>
          distinct (map fst kws)
          \<and> (\<forall>n. dict_get kws n =
                (case filter (\<lambda>kw. name kw = n) (stored_keywords l records) of
                   [] \<Rightarrow> None
                 | x # xs \<Rightarrow> Some (last (x # xs))))
          \<and> (\<forall>k v. (k, v) \<in> set kws \<longrightarrow>
                name v = k \<and> k \<noteq> [] \<and> v \<in> set (stored_keywords l records))"
    by (intro allI impI)
  show ?thesis by (rule conjI [OF eq conjI [OF total conjI [OF props' conjI [OF skip two]]]])
qed

theorem keyword_normalizer_last_write_wins_witness:
  "normalize_keywords ''BuiltIn'' example_libdoc = Inr [(''Log'', example_log)]
   \<and> keywords_loop ''BuiltIn'' example_records [] = Inr [(''Log'', example_log)]
   \<and> dict_get [(''Log'', example_log)] ''Log'' = Some example_log"
proof -
  have k: "py_get example_libdoc ''keywords'' (JArr []) = Inr (JArr example_records)"
    by (simp add: example_libdoc_def)
  from keyword_normalizer_last_write_wins [OF k, of "''BuiltIn''"] example_normalized
  show ?thesis by (simp add: dict_get_def)
qed


subsection \<open>Keyword lookup\<close>

lemma find_append_cases:
  "find P (xs @ ys) = (case find P xs of None \<Rightarrow> find P ys | Some x \<Rightarrow> Some x)"
  by (induction xs) simp_all

lemma find_keyword_spec:
  "find_keyword q lib_name kws =
     map_option doc_of_entry
       (find (\<lambda>ent. normalize_name (fst (snd ent)) = q) (map (\<lambda>kv. (lib_name, fst kv, snd kv)) kws))"
  by (induction kws) (auto simp: doc_of_entry_def)

lemma find_in_libraries_spec:
  "find_in_libraries q libs =
     map_option doc_of_entry (find (\<lambda>ent. normalize_name (fst (snd ent)) = q) (index_entries libs))"
proof (induction libs)
  case Nil
  show ?case by (simp add: index_entries_def)
next
  case (Cons lk libs)
  obtain l kws where lk: "lk = (l, kws)" by (cases lk)
  have "index_entries (lk # libs) = map (\<lambda>kv. (l, fst kv, snd kv)) kws @ index_entries libs"
    by (simp add: index_entries_def lk)
  then show ?case
    using Cons.IH
    by (simp add: lk find_keyword_spec find_append_cases split: option.splits)
qed

lemma normalize_examples:
  "normalize_name ''run_keyword'' = ''run keyword''"
  "normalize_name ''Run-Keyword'' = ''run keyword''"
  "normalize_name ''run keyword'' = ''run keyword''"
  "normalize_name ''Run Keyword'' = ''run keyword''"
  by code_simp+

lemma get_keyword_documentation_indexed:
  "keywords_file w = Some idx \<Longrightarrow>
   get_keyword_documentation e q lib w = (lookup_keyword (ki_libraries idx) q lib, w)"
  by (simp add: get_keyword_documentation_def ensure_fetched_def)

lemma lookup_keyword_all:
  "lib = None \<or> lib = Some [] \<Longrightarrow>
   lookup_keyword libs q lib =
     (case find (\<lambda>ent. normalize_name (fst (snd ent)) = normalize_name q) (index_entries libs) of
        None \<Rightarrow> Inr (NotAvailable q)
      | Some ent \<Rightarrow> Inr (doc_of_entry ent))"
  by (auto simp: lookup_keyword_def find_in_libraries_spec split: option.splits)

lemma lookup_keyword_library:
  "l \<noteq> [] \<Longrightarrow>
   lookup_keyword libs q (Some l) =
     (case dict_get libs l of
        None \<Rightarrow> Inl (LibraryNotFound l (map fst libs))
      | Some kws \<Rightarrow>
          (case find (\<lambda>ent. normalize_name (fst (snd ent)) = normalize_name q)
                  (index_entries [(l, kws)]) of
             None \<Rightarrow> Inr (NotAvailable q)
           | Some ent \<Rightarrow> Inr (doc_of_entry ent)))"
  by (auto simp: lookup_keyword_def find_in_libraries_spec split: option.splits)

lemma lookup_plain:
  "lookup_keyword plain_libraries ''run_keyword'' None =
     Inr (Available ''Run Keyword'' ''BuiltIn'' ''name, *args'' ''Executes the given keyword.''
            ''https://robotframework.org/robotframework/7.4.1/libraries/BuiltIn.html#Run%20Keyword'')"
  by code_simp

lemma lookup_shadowed:
  "lookup_keyword shadowed_libraries ''run keyword'' None =
     Inr (Available ''run_keyword'' ''BuiltIn'' ''name, *args'' ''other''
            ''https://robotframework.org/robotframework/7.4.1/libraries/BuiltIn.html#run_keyword'')"
  by code_simp

text \<open>
  Claim C5, as stated, fails: in an index where the key \<open>run_keyword\<close> stands before
  the key \<open>Run Keyword\<close>, the query \<open>run keyword\<close> resolves to the record stored as
  \<open>run_keyword\<close>, not to the one stored as \<open>Run Keyword\<close>.
\<close>

theorem keyword_lookup_counterexample:
  "dict_get shadowed_libraries ''BuiltIn'' =
     Some [(''run_keyword'', example_kw ''run_keyword'' ''other''),
           (''Run Keyword'', example_kw ''Run Keyword'' ''Executes the given keyword.'')]
   \<and> (\<forall>e. fst (get_keyword_documentation e ''run keyword'' None (world_with_keywords shadowed_libraries))
        = Inr (Available ''run_keyword'' ''BuiltIn'' ''name, *args'' ''other''
            ''https://robotframework.org/robotframework/7.4.1/libraries/BuiltIn.html#run_keyword''))"
proof -
  have "keywords_file (world_with_keywords shadowed_libraries) =
      Some \<lparr>ki_version = RF_VERSION, ki_parsed_at = ''t'',
            total_libraries = length shadowed_libraries,
            ki_total_keywords = sum_list (map (\<lambda>lk. length (snd lk)) shadowed_libraries),
            ki_libraries = shadowed_libraries\<rparr>"
    by (simp add: world_with_keywords_def)
  from get_keyword_documentation_indexed [OF this] lookup_shadowed
  show ?thesis by (simp add: dict_get_def shadowed_libraries_def)
qed

text \<open>
  Claim C5, amended.  The lookup lower-cases the query and every stored name and
  replaces underscores and hyphens by spaces; \<open>run_keyword\<close>, \<open>Run-Keyword\<close> and
  \<open>run keyword\<close> normalize to what \<open>Run Keyword\<close> normalizes to.  Without a library
  name the answer is the first entry, in the iteration order of the index, whose
  normalized name equals the normalized query: the three queries resolve to the record
  stored as \<open>Run Keyword\<close> when that record is this first entry.  With a library name
  only that library's map is searched, and a library that is not in the index gives
  the library-not-found error.
\<close>

theorem keyword_lookup_normalized:
  assumes "keywords_file w = Some idx"
  shows "normalize_name ''run_keyword'' = normalize_name ''Run Keyword''
    \<and> normalize_name ''Run-Keyword'' = normalize_name ''Run Keyword''
    \<and> normalize_name ''run keyword'' = normalize_name ''Run Keyword''
    \<and> (\<forall>q lib. lib = None \<or> lib = Some [] \<longrightarrow>
          get_keyword_documentation e q lib w =
            ((case find (\<lambda>ent. normalize_name (fst (snd ent)) = normalize_name q)
                     (index_entries (ki_libraries idx)) of
                None \<Rightarrow> Inr (NotAvailable q)
              | Some ent \<Rightarrow> Inr (doc_of_entry ent)), w))
    \<and> (\<forall>q lib l v. (lib = None \<or> lib = Some [])
          \<and> normalize_name q = normalize_name ''Run Keyword''
          \<and> find (\<lambda>ent. normalize_name (fst (snd ent)) = normalize_name ''Run Keyword'')
               (index_entries (ki_libraries idx)) = Some (l, ''Run Keyword'', v) \<longrightarrow>
          fst (get_keyword_documentation e q lib w) =
            Inr (Available ''Run Keyword'' l (args v) (doc v)
                   (RF_BASE_LIB_URL @ ''/'' @ l @ ''.html'' @ ''#'' @ id' v)))
    \<and> (\<forall>q l. l \<noteq> [] \<and> dict_get (ki_libraries idx) l = None \<longrightarrow>
          get_keyword_documentation e q (Some l) w =
            (Inl (LibraryNotFound l (map fst (ki_libraries idx))), w))
    \<and> (\<forall>q l kws. l \<noteq> [] \<and> dict_get (ki_libraries idx) l = Some kws \<longrightarrow>
          get_keyword_documentation e q (Some l) w =
            ((case find (\<lambda>ent. normalize_name (fst (snd ent)) = normalize_name q)
                     (index_entries [(l, kws)]) of
                None \<Rightarrow> Inr (NotAvailable q)
              | Some ent \<Rightarrow> Inr (doc_of_entry ent)), w))"
proof -
  note g = get_keyword_documentation_indexed [OF assms]
  have n: "normalize_name ''run_keyword'' = normalize_name ''Run Keyword''
    \<and> normalize_name ''Run-Keyword'' = normalize_name ''Run Keyword''
    \<and> normalize_name ''run keyword'' = normalize_name ''Run Keyword''"
    by (simp add: normalize_examples)
  have a: "\<forall>q lib. lib = None \<or> lib = Some [] \<longrightarrow>
          get_keyword_documentation e q lib w =
            ((case find (\<lambda>ent. normalize_name (fst (snd ent)) = normalize_name q)
                     (index_entries (ki_libraries idx)) of
                None \<Rightarrow> Inr (NotAvailable q)
              | Some ent \<Rightarrow> Inr (doc_of_entry ent)), w)"
    using lookup_keyword_all by (simp add: g)
  have b: "\<forall>q lib l v. (lib = None \<or> lib = Some [])
          \<and> normalize_name q = normalize_name ''Run Keyword''
          \<and> find (\<lambda>ent. normalize_name (fst (snd ent)) = normalize_name ''Run Keyword'')
               (index_entries (ki_libraries idx)) = Some (l, ''Run Keyword'', v) \<longrightarrow>
          fst (get_keyword_documentation e q lib w) =
            Inr (Available ''Run Keyword'' l (args v) (doc v)
                   (RF_BASE_LIB_URL @ ''/'' @ l @ ''.html'' @ ''#'' @ id' v))"
  proof (intro allI impI)
    fix q :: string and lib :: "string option" and l :: string and v :: keyword
    assume h: "(lib = None \<or> lib = Some [])
          \<and> normalize_name q = normalize_name ''Run Keyword''
          \<and> find (\<lambda>ent. normalize_name (fst (snd ent)) = normalize_name ''Run Keyword'')
               (index_entries (ki_libraries idx)) = Some (l, ''Run Keyword'', v)"
    then have "lib = None \<or> lib = Some []" by simp
    from lookup_keyword_all [OF this, of "ki_libraries idx" q] h
    show "fst (get_keyword_documentation e q lib w) =
            Inr (Available ''Run Keyword'' l (args v) (doc v)
                   (RF_BASE_LIB_URL @ ''/'' @ l @ ''.html'' @ ''#'' @ id' v))"
      by (simp add: g doc_of_entry_def)
  qed
  have c: "\<forall>q l. l \<noteq> [] \<and> dict_get (ki_libraries idx) l = None \<longrightarrow>
          get_keyword_documentation e q (Some l) w =
            (Inl (LibraryNotFound l (map fst (ki_libraries idx))), w)"
    by (simp add: g lookup_keyword_library)
  have d: "\<forall>q l kws. l \<noteq> [] \<and> dict_get (ki_libraries idx) l = Some kws \<longrightarrow>
          get_keyword_documentation e q (Some l) w =
            ((case find (\<lambda>ent. normalize_name (fst (snd ent)) = normalize_name q)
                     (index_entries [(l, kws)]) of
                None \<Rightarrow> Inr (NotAvailable q)
              | Some ent \<Rightarrow> Inr (doc_of_entry ent)), w)"
    by (simp add: g lookup_keyword_library)
  show ?thesis
    using n a b c d by (intro conjI) (simp_all only:)
qed

theorem keyword_lookup_normalized_witness:
  "\<forall>e. fst (get_keyword_documentation e ''run_keyword'' None (world_with_keywords plain_libraries))
     = Inr (Available ''Run Keyword'' ''BuiltIn'' ''name, *args'' ''Executes the given keyword.''
            ''https://robotframework.org/robotframework/7.4.1/libraries/BuiltIn.html#Run%20Keyword'')"
proof
  fix e
  have k: "keywords_file (world_with_keywords plain_libraries) =
      Some \<lparr>ki_version = RF_VERSION, ki_parsed_at = ''t'',
            total_libraries = length plain_libraries,
            ki_total_keywords = sum_list (map (\<lambda>lk. length (snd lk)) plain_libraries),
            ki_libraries = plain_libraries\<rparr>"
    by (simp add: world_with_keywords_def)
  have "get_keyword_documentation e ''run_keyword'' None (world_with_keywords plain_libraries) =
      ((case find (\<lambda>ent. normalize_name (fst (snd ent)) = normalize_name ''run_keyword'')
               (index_entries plain_libraries) of
          None \<Rightarrow> Inr (NotAvailable ''run_keyword'')
        | Some ent \<Rightarrow> Inr (doc_of_entry ent)), world_with_keywords plain_libraries)"
    using keyword_lookup_normalized [OF k, of e] by simp
  moreover have "(case find (\<lambda>ent. normalize_name (fst (snd ent)) = normalize_name ''run_keyword'')
               (index_entries plain_libraries) of
          None \<Rightarrow> Inr (NotAvailable ''run_keyword'')
        | Some ent \<Rightarrow> Inr (doc_of_entry ent)) = lookup_keyword plain_libraries ''run_keyword'' None"
    by (simp add: lookup_keyword_all)
  ultimately show "fst (get_keyword_documentation e ''run_keyword'' None (world_with_keywords plain_libraries))
     = Inr (Available ''Run Keyword'' ''BuiltIn'' ''name, *args'' ''Executes the given keyword.''
            ''https://robotframework.org/robotframework/7.4.1/libraries/BuiltIn.html#Run%20Keyword'')"
    by (simp add: lookup_plain)
qed


subsection \<open>The section extractor\<close>

lemma dropWhile_hd_not: "dropWhile P xs \<noteq> [] \<Longrightarrow> \<not> P (hd (dropWhile P xs))"
  by (simp add: hd_dropWhile)

lemma py_strip_ends:
  assumes "py_strip s \<noteq> []"
  shows "\<not> py_isspace (hd (py_strip s)) \<and> \<not> py_isspace (last (py_strip s))"
proof -
  define t where "t = dropWhile py_isspace s"
  define u where "u = dropWhile py_isspace (rev t)"
  have s: "py_strip s = rev u" by (simp add: py_strip_def t_def u_def)
  with assms have u: "u \<noteq> []" by simp
  then have "\<not> py_isspace (hd u)" unfolding u_def by (rule dropWhile_hd_not)
  then have l: "\<not> py_isspace (last (rev u))" using u by (simp add: last_rev)
  from u have t: "t \<noteq> []" unfolding u_def by auto
  then have ht: "\<not> py_isspace (hd t)" unfolding t_def by (rule dropWhile_hd_not)
  obtain v where "rev t = v @ u"
    unfolding u_def by (metis takeWhile_dropWhile_id)
  then have "last (rev t) = last u" using u by simp
  then have "hd t = last u" using t by (simp add: last_rev)
  then have "hd (rev u) = hd t" using u by (simp add: hd_rev)
  with ht l s show ?thesis by simp
qed

lemma py_strip_id:
  assumes "s = [] \<or> (\<not> py_isspace (hd s) \<and> \<not> py_isspace (last s))"
  shows "py_strip s = s"
proof (cases "s = []")
  case True
  then show ?thesis by (simp add: py_strip_def)
next
  case False
  with assms have h: "\<not> py_isspace (hd s)" and l: "\<not> py_isspace (last s)" by simp_all
  have keep: "dropWhile py_isspace xs = xs" if "xs \<noteq> []" "\<not> py_isspace (hd xs)" for xs
    using that by (cases xs) simp_all
  from False h have "dropWhile py_isspace s = s" by (rule keep)
  moreover have "dropWhile py_isspace (rev s) = rev s"
    using False l by (intro keep) (simp_all add: hd_rev)
  ultimately show ?thesis by (simp add: py_strip_def)
qed

lemma py_join_trimmed:
  "list_all trimmed ps \<Longrightarrow> ps \<noteq> [] \<Longrightarrow> trimmed (py_join sep ps)"
proof (induction sep ps rule: py_join.induct)
  case (1 sep)
  then show ?case by simp
next
  case (2 sep x)
  then show ?case by simp
next
  case (3 sep x y ys)
  then have x: "trimmed x" and j: "trimmed (py_join sep (y # ys))" by simp_all
  from x have "hd (x @ sep @ py_join sep (y # ys)) = hd x" by (simp add: trimmed_def)
  moreover from j have "last (x @ sep @ py_join sep (y # ys)) = last (py_join sep (y # ys))"
    by (simp add: trimmed_def)
  ultimately show ?case using x j by (simp add: trimmed_def)
qed

lemma text_pieces_trimmed: "list_all trimmed (text_pieces es)"
  unfolding text_pieces_def list_all_iff
proof
  fix p
  assume "p \<in> set (filter (\<lambda>t. t \<noteq> []) (map py_strip (texts es)))"
  then obtain d where "p = py_strip d" and "p \<noteq> []" by auto
  then show "trimmed p" using py_strip_ends [of d] by (simp add: trimmed_def)
qed

lemma py_strip_join:
  "list_all trimmed ps \<Longrightarrow> py_strip (py_join '' '' ps) = py_join '' '' ps"
proof (cases "ps = []")
  case True
  then show ?thesis by (simp add: py_strip_def)
next
  case False
  assume "list_all trimmed ps"
  from py_join_trimmed [OF this False, of "'' ''"] show ?thesis
    by (intro py_strip_id) (simp add: trimmed_def)
qed

lemma text_pieces_simps:
  "text_pieces [] = []"
  "text_pieces (Data d # es) = (if py_strip d \<noteq> [] then py_strip d # text_pieces es else text_pieces es)"
  "text_pieces (StartTag tag attrs # es) = text_pieces es"
  "text_pieces (EndTag tag # es) = text_pieces es"
  by (simp_all add: text_pieces_def)

text \<open>Events that start no heading leave \<open>sections\<close> alone.\<close>

lemma feed_outside:
  assumes "\<forall>ev \<in> set evs. \<not> is_heading_start ev"
    and "current_section st = Some cur" and "\<not> in_section st"
  shows "sections (foldl handle_event st evs) = sections st
    \<and> current_section (foldl handle_event st evs) = Some cur
    \<and> current_content (foldl handle_event st evs) = current_content st @ text_pieces evs"
  using assms
proof (induction evs arbitrary: st)
  case Nil
  then show ?case by (simp add: text_pieces_simps)
next
  case (Cons ev evs)
  have step: "sections (handle_event st ev) = sections st
      \<and> current_section (handle_event st ev) = Some cur
      \<and> \<not> in_section (handle_event st ev)
      \<and> current_content (handle_event st ev) = current_content st @ text_pieces [ev]"
    using Cons.prems
    by (cases ev)
       (simp_all add: handle_starttag_def handle_endtag_def handle_data_def Let_def text_pieces_simps)
  from Cons.prems(1) have "\<forall>ev \<in> set evs. \<not> is_heading_start ev" by simp
  from Cons.IH [OF this, of "handle_event st ev"] step
  show ?case by (cases ev) (simp_all add: text_pieces_simps)
qed

lemma feed_inside:
  assumes "\<forall>ev \<in> set evs. \<not> is_heading_start ev"
    and "current_section st = Some cur" and "in_section st"
  shows "sections (foldl handle_event st evs) = sections st
    \<and> current_section (foldl handle_event st evs) =
        Some (cur\<lparr>title := last_title (title cur) (texts (takeWhile (\<lambda>e. \<not> is_heading_end e) evs))\<rparr>)
    \<and> current_content (foldl handle_event st evs) =
        current_content st @ text_pieces (dropWhile (\<lambda>e. \<not> is_heading_end e) evs)"
  using assms
proof (induction evs arbitrary: st cur)
  case Nil
  then show ?case by (simp add: text_pieces_simps last_title_def)
next
  case (Cons ev evs)
  from Cons.prems(1) have rest: "\<forall>ev \<in> set evs. \<not> is_heading_start ev" by simp
  show ?case
  proof (cases "is_heading_end ev")
    case True
    then obtain tag where ev: "ev = EndTag tag" "tag \<in> set heading_tags" by (cases ev) simp_all
    have "current_section (handle_event st ev) = Some cur" "\<not> in_section (handle_event st ev)"
      "sections (handle_event st ev) = sections st"
      "current_content (handle_event st ev) = current_content st"
      using Cons.prems ev by (simp_all add: handle_endtag_def)
    with feed_outside [OF rest, of "handle_event st ev" cur] True ev
    show ?thesis by (simp add: text_pieces_simps last_title_def)
  next
    case False
    show ?thesis
    proof (cases ev)
      case (StartTag tag attrs)
      with Cons.prems(1) have "tag \<notin> set heading_tags" by simp
      then have "handle_event st ev = st" using StartTag by (simp add: handle_starttag_def)
      with Cons.IH [OF rest Cons.prems(2,3)] StartTag show ?thesis by simp
    next
      case (EndTag tag)
      with False have "tag \<notin> set heading_tags" by simp
      then have "handle_event st ev = st" using EndTag by (simp add: handle_endtag_def)
      with Cons.IH [OF rest Cons.prems(2,3)] EndTag False show ?thesis by simp
    next
      case (Data d)
      let ?st = "handle_event st ev"
      have st': "current_section ?st = Some (cur\<lparr>title := py_strip d\<rparr>)" "in_section ?st"
        "sections ?st = sections st" "current_content ?st = current_content st"
        using Cons.prems Data by (simp_all add: handle_data_def)
      from Cons.IH [OF rest st'(1,2)] st'(3,4) Data
      show ?thesis by (simp add: last_title_def)
    qed
  qed
qed

lemma feed_none:
  assumes "\<forall>ev \<in> set evs. \<not> is_heading_start ev" and "current_section st = None"
  shows "sections (foldl handle_event st evs) = sections st
    \<and> current_section (foldl handle_event st evs) = None"
  using assms
proof (induction evs arbitrary: st)
  case Nil
  then show ?case by simp
next
  case (Cons ev evs)
  have "sections (handle_event st ev) = sections st \<and> current_section (handle_event st ev) = None"
    using Cons.prems
    by (cases ev) (simp_all add: handle_starttag_def handle_endtag_def handle_data_def)
  with Cons.IH [of "handle_event st ev"] Cons.prems(1) show ?case by simp
qed

lemma save_after_heading:
  assumes "\<forall>ev \<in> set seg. \<not> is_heading_start ev" and "tag \<in> set heading_tags"
  shows "save_section (foldl handle_event (handle_starttag tag attrs st) seg) =
     save_section st @ [section_of_heading tag attrs seg]"
proof -
  let ?st = "handle_starttag tag attrs st"
  let ?cur = "\<lparr>section_id = attrs_id attrs, level = heading_level tag, title = [], content = []\<rparr>"
  have st: "current_section ?st = Some ?cur" "in_section ?st" "sections ?st = save_section st"
    "current_content ?st = []"
    using assms(2) by (simp_all add: handle_starttag_def)
  note f = feed_inside [OF assms(1) st(1,2)]
  have "py_strip (py_join '' '' (text_pieces (dropWhile (\<lambda>e. \<not> is_heading_end e) seg)))
      = section_content seg"
    unfolding section_content_def by (rule py_strip_join) (rule text_pieces_trimmed)
  then show ?thesis
    using f st(3,4)
    by (simp add: save_section_def section_of_heading_def section_title_def)
qed

lemma save_after_feed:
  "save_section (foldl handle_event st evs) =
     save_section (foldl handle_event st (takeWhile (\<lambda>e. \<not> is_heading_start e) evs))
     @ sections_spec evs"
proof (induction evs arbitrary: st)
  case Nil
  show ?case by simp
next
  case (Cons ev evs)
  show ?case
  proof (cases "is_heading_start ev")
    case True
    then obtain tag attrs where ev: "ev = StartTag tag attrs" "tag \<in> set heading_tags"
      by (cases ev) simp_all
    have "\<forall>e \<in> set (takeWhile (\<lambda>e. \<not> is_heading_start e) evs). \<not> is_heading_start e"
      by (auto dest: set_takeWhileD)
    from save_after_heading [OF this ev(2), of attrs st]
      Cons.IH [of "handle_starttag tag attrs st"] ev True
    show ?thesis by simp
  next
    case False
    then have "sections_spec (ev # evs) = sections_spec evs"
      by (cases ev) simp_all
    with Cons.IH [of "handle_event st ev"] False show ?thesis by simp
  qed
qed

lemma extract_sections_spec: "extract_sections events = sections_spec events"
proof -
  have "\<forall>e \<in> set (takeWhile (\<lambda>e. \<not> is_heading_start e) events). \<not> is_heading_start e"
    by (auto dest: set_takeWhileD)
  from feed_none [OF this, of parser_init]
  have "save_section (foldl handle_event parser_init (takeWhile (\<lambda>e. \<not> is_heading_start e) events)) = []"
    by (simp add: save_section_def parser_init_def)
  with save_after_feed [of parser_init events] show ?thesis
    by (simp add: extract_sections_def get_sections_def)
qed

lemma sections_spec_length: "length (sections_spec evs) = length (filter is_heading_start evs)"
  by (induction evs rule: sections_spec.induct) simp_all

lemma sections_spec_lead:
  "\<forall>ev \<in> set pre. \<not> is_heading_start ev \<Longrightarrow> sections_spec (pre @ evs) = sections_spec evs"
proof (induction pre)
  case Nil
  show ?case by simp
next
  case (Cons ev pre)
  then show ?case by (cases ev) simp_all
qed

lemma sections_spec_heading:
  assumes "tag \<in> set heading_tags" and "\<forall>ev \<in> set seg. \<not> is_heading_start ev"
    and "rest = [] \<or> is_heading_start (hd rest)"
  shows "sections_spec (StartTag tag attrs # seg @ rest) =
    section_of_heading tag attrs seg # sections_spec rest"
proof -
  have "takeWhile (\<lambda>e. \<not> is_heading_start e) (seg @ rest) = seg"
    using assms(2,3) by (cases rest) (simp_all add: takeWhile_append2)
  with assms(1) sections_spec_lead [OF assms(2), of rest] show ?thesis by simp
qed

lemma heading_level_range: "tag \<in> set heading_tags \<Longrightarrow> heading_level tag \<in> {1, 2, 3, 4}"
  by (auto simp: heading_tags_def heading_level_def)

lemma example_extracted:
  "extract_sections example_events =
     [\<lparr>section_id = Some ''a'', level = 1, title = ''T2'', content = ''text one''\<rparr>,
      \<lparr>section_id = Some [], level = 2, title = ''Second'', content = ''more tail''\<rparr>]"
  by code_simp

text \<open>
  Claim C7.  For every list of parser events, the extractor returns one section for
  each start tag of \<open>h1\<close> to \<open>h4\<close>, in the order of the document.  The section of a
  heading is made of the events up to the next heading start tag or the end: its
  title is the trimmed last text before the first closing heading tag, its content
  the trimmed, non-empty texts after that tag joined by single spaces.  Events before
  the first heading give no section, and the section open at the end is returned.
\<close>

theorem section_extractor_order:
  "extract_sections events = sections_spec events
   \<and> length (extract_sections events) = length (filter is_heading_start events)
   \<and> (\<forall>pre. (\<forall>ev \<in> set pre. \<not> is_heading_start ev) \<longrightarrow>
         extract_sections (pre @ events) = extract_sections events)
   \<and> (\<forall>tag attrs seg rest. tag \<in> set heading_tags \<and> (\<forall>ev \<in> set seg. \<not> is_heading_start ev)
         \<and> (rest = [] \<or> is_heading_start (hd rest)) \<longrightarrow>
         extract_sections (StartTag tag attrs # seg @ rest) =
           \<lparr>section_id = attrs_id attrs, level = heading_level tag,
            title = last_title [] (texts (takeWhile (\<lambda>e. \<not> is_heading_end e) seg)),
            content = py_join '' '' (text_pieces (dropWhile (\<lambda>e. \<not> is_heading_end e) seg))\<rparr>
           # extract_sections rest
         \<and> heading_level tag \<in> {1, 2, 3, 4})
   \<and> (\<forall>t ds d. last_title t (ds @ [d]) = py_strip d)
   \<and> (\<forall>es. list_all trimmed (text_pieces es))"
proof -
  have a: "extract_sections events = sections_spec events"
    by (rule extract_sections_spec)
  have b: "length (extract_sections events) = length (filter is_heading_start events)"
    by (simp add: extract_sections_spec sections_spec_length)
  have c: "\<forall>pre. (\<forall>ev \<in> set pre. \<not> is_heading_start ev) \<longrightarrow>
         extract_sections (pre @ events) = extract_sections events"
    by (simp add: extract_sections_spec sections_spec_lead)
  have d: "\<forall>tag attrs seg rest. tag \<in> set heading_tags \<and> (\<forall>ev \<in> set seg. \<not> is_heading_start ev)
         \<and> (rest = [] \<or> is_heading_start (hd rest)) \<longrightarrow>
         extract_sections (StartTag tag attrs # seg @ rest) =
           \<lparr>section_id = attrs_id attrs, level = heading_level tag,
            title = last_title [] (texts (takeWhile (\<lambda>e. \<not> is_heading_end e) seg)),
            content = py_join '' '' (text_pieces (dropWhile (\<lambda>e. \<not> is_heading_end e) seg))\<rparr>
           # extract_sections rest
         \<and> heading_level tag \<in> {1, 2, 3, 4}"
  proof (intro allI impI)
    fix tag attrs seg rest
    assume h: "tag \<in> set heading_tags \<and> (\<forall>ev \<in> set seg. \<not> is_heading_start ev)
         \<and> (rest = [] \<or> is_heading_start (hd rest))"
    then have h1: "tag \<in> set heading_tags" and h2: "\<forall>ev \<in> set seg. \<not> is_heading_start ev"
      and h3: "rest = [] \<or> is_heading_start (hd rest)" by simp_all
    from sections_spec_heading [OF h1 h2 h3, of attrs] heading_level_range [OF h1]
    show "extract_sections (StartTag tag attrs # seg @ rest) =
           \<lparr>section_id = attrs_id attrs, level = heading_level tag,
            title = last_title [] (texts (takeWhile (\<lambda>e. \<not> is_heading_end e) seg)),
            content = py_join '' '' (text_pieces (dropWhile (\<lambda>e. \<not> is_heading_end e) seg))\<rparr>
           # extract_sections rest
         \<and> heading_level tag \<in> {1, 2, 3, 4}"
      by (simp add: extract_sections_spec section_of_heading_def section_title_def
          section_content_def)
  qed
  have e: "\<forall>t ds d. last_title t (ds @ [d]) = py_strip d"
    by (simp add: last_title_def)
  have f: "\<forall>es. list_all trimmed (text_pieces es)"
    by (simp add: text_pieces_trimmed)
  show ?thesis by (rule conjI [OF a conjI [OF b conjI [OF c conjI [OF d conjI [OF e f]]]]])
qed

theorem section_extractor_order_witness:
  "extract_sections example_events = sections_spec example_events
   \<and> extract_sections example_events =
     [\<lparr>section_id = Some ''a'', level = 1, title = ''T2'', content = ''text one''\<rparr>,
      \<lparr>section_id = Some [], level = 2, title = ''Second'', content = ''more tail''\<rparr>]"
  using section_extractor_order [of example_events] example_extracted by simp


subsection \<open>The index builder\<close>

lemma dict_set_fresh: "k \<notin> set (map fst d) \<Longrightarrow> dict_set k v d = d @ [(k, v)]"
  by (induction d) auto

lemma step_world:
  "fs_world (library_step e f st l) =
     (fs_world st)\<lparr>library_files :=
                     (library_files (fs_world st))(l := file_after e f l (library_files (fs_world st) l)),
                   requests := requests (fs_world st)
                     @ (if f \<or> library_files (fs_world st) l = None then [library_url l] else [])\<rparr>"
  by (auto simp: library_step_def library_download_def library_parse_def download_file_def
      file_after_def write_slot_def split: sum.splits)

lemma step_keywords:
  "all_keywords (library_step e f st l) =
     (case parse_cached e l (file_after e f l (library_files (fs_world st) l)) of
        Inl err \<Rightarrow> all_keywords st
      | Inr r \<Rightarrow> dict_set l (kr_keywords r) (all_keywords st))"
  by (auto simp: library_step_def library_download_def library_parse_def download_file_def
      file_after_def write_slot_def parse_library_keywords_def parse_cached_def split: sum.splits)

lemma step_libraries:
  "fs_libraries (library_step e f st l) =
     (case file_after e f l (library_files (fs_world st) l) of
        None \<Rightarrow> fs_libraries st
      | Some bytes \<Rightarrow>
          dict_set l
            (case parse_cached e l (Some bytes) of
               Inl err \<Rightarrow> \<lparr>ls_success = False, ls_total_keywords = 0\<rparr>
             | Inr r \<Rightarrow> \<lparr>ls_success = True, ls_total_keywords = kr_total_keywords r\<rparr>)
            (fs_libraries st))"
  by (auto simp: library_step_def library_download_def library_parse_def download_file_def
      file_after_def write_slot_def parse_library_keywords_def split: sum.splits)


lemma step_total:
  "fs_total_keywords (library_step e f st l) =
     (case parse_cached e l (file_after e f l (library_files (fs_world st) l)) of
        Inl err \<Rightarrow> fs_total_keywords st
      | Inr r \<Rightarrow> fs_total_keywords st + kr_total_keywords r)"
  by (auto simp: library_step_def library_download_def library_parse_def download_file_def
      file_after_def write_slot_def parse_library_keywords_def parse_cached_def split: sum.splits)

lemma fold_world:
  "distinct libs \<Longrightarrow>
   fs_world (foldl (library_step e f) st libs) =
     (fs_world st)\<lparr>library_files :=
                     (\<lambda>l. if l \<in> set libs then file_after e f l (library_files (fs_world st) l)
                          else library_files (fs_world st) l),
                   requests := requests (fs_world st)
                     @ map library_url (filter (\<lambda>l. f \<or> library_files (fs_world st) l = None) libs)\<rparr>"
proof (induction libs arbitrary: st)
  case Nil
  show ?case by simp
next
  case (Cons l ls)
  let ?w = "fs_world st"
  let ?st1 = "library_step e f st l"
  from Cons.prems have d: "distinct ls" and nl: "l \<notin> set ls" by simp_all
  have files1: "library_files (fs_world ?st1) x = library_files ?w x" if "x \<in> set ls" for x
    using that nl by (auto simp: step_world)
  have filt: "filter (\<lambda>x. f \<or> library_files (fs_world ?st1) x = None) ls
      = filter (\<lambda>x. f \<or> library_files ?w x = None) ls"
    by (rule filter_cong) (simp_all add: files1)
  have fl: "(\<lambda>x. if x \<in> set ls then file_after e f x (library_files (fs_world ?st1) x)
                 else library_files (fs_world ?st1) x)
      = (\<lambda>x. if x \<in> set (l # ls) then file_after e f x (library_files ?w x)
               else library_files ?w x)"
    using nl by (auto simp: fun_eq_iff files1 step_world)
  show ?case
    unfolding foldl_Cons Cons.IH [OF d] filt fl
    by (simp add: step_world)
qed

lemma parsed_libraries_Cons:
  "parsed_libraries e files (l # ls) =
     (case parse_cached e l (files l) of
        Inl err \<Rightarrow> parsed_libraries e files ls
      | Inr r \<Rightarrow> (l, kr_keywords r) # parsed_libraries e files ls)"
  by (simp add: parsed_libraries_def List.map_filter_simps split: sum.splits)

lemma parsed_libraries_Nil: "parsed_libraries e files [] = []"
  by (simp add: parsed_libraries_def List.map_filter_simps)

lemma parsed_libraries_cong:
  "(\<And>l. l \<in> set libs \<Longrightarrow> files l = files' l) \<Longrightarrow>
   parsed_libraries e files libs = parsed_libraries e files' libs"
proof (induction libs)
  case Nil
  show ?case by (simp add: parsed_libraries_Nil)
next
  case (Cons a libs)
  then have "parsed_libraries e files libs = parsed_libraries e files' libs"
    and "files a = files' a" by simp_all
  then show ?case by (simp add: parsed_libraries_Cons split: sum.splits)
qed

lemma parsed_libraries_keys: "set (map fst (parsed_libraries e files libs)) \<subseteq> set libs"
  by (induction libs) (auto simp: parsed_libraries_Nil parsed_libraries_Cons split: sum.splits)

lemma reported_libraries_Cons:
  "reported_libraries e files (l # ls) =
     (case files l of
        None \<Rightarrow> reported_libraries e files ls
      | Some bytes \<Rightarrow>
          (l, case parse_cached e l (Some bytes) of
                Inl err \<Rightarrow> \<lparr>ls_success = False, ls_total_keywords = 0\<rparr>
              | Inr r \<Rightarrow> \<lparr>ls_success = True, ls_total_keywords = kr_total_keywords r\<rparr>)
          # reported_libraries e files ls)"
  by (simp add: reported_libraries_def List.map_filter_simps split: option.splits)

lemma reported_libraries_Nil: "reported_libraries e files [] = []"
  by (simp add: reported_libraries_def List.map_filter_simps)

lemma reported_libraries_cong:
  "(\<And>l. l \<in> set libs \<Longrightarrow> files l = files' l) \<Longrightarrow>
   reported_libraries e files libs = reported_libraries e files' libs"
proof (induction libs)
  case Nil
  show ?case by (simp add: reported_libraries_Nil)
next
  case (Cons a libs)
  then have "reported_libraries e files libs = reported_libraries e files' libs"
    and "files a = files' a" by simp_all
  then show ?case by (simp add: reported_libraries_Cons split: option.splits)
qed

text \<open>The loop appends, in the order of the list, what each library gives.\<close>

lemma fold_keywords:
  assumes "distinct libs" and "set libs \<inter> set (map fst (all_keywords st)) = {}"
  shows "all_keywords (foldl (library_step e f) st libs) =
     all_keywords st
     @ parsed_libraries e (\<lambda>l. file_after e f l (library_files (fs_world st) l)) libs"
  using assms
proof (induction libs arbitrary: st)
  case Nil
  show ?case by (simp add: parsed_libraries_Nil)
next
  case (Cons l ls)
  let ?st1 = "library_step e f st l"
  let ?files = "\<lambda>l. file_after e f l (library_files (fs_world st) l)"
  from Cons.prems have d: "distinct ls" and nl: "l \<notin> set ls"
    and fresh: "l \<notin> set (map fst (all_keywords st))"
    and rest: "set ls \<inter> set (map fst (all_keywords st)) = {}" by auto
  have k1: "all_keywords ?st1 =
      (case parse_cached e l (?files l) of
         Inl err \<Rightarrow> all_keywords st
       | Inr r \<Rightarrow> all_keywords st @ [(l, kr_keywords r)])"
    using fresh by (simp add: step_keywords dict_set_fresh split: sum.splits)
  then have "set (map fst (all_keywords ?st1)) \<subseteq> insert l (set (map fst (all_keywords st)))"
    by (auto split: sum.splits)
  with rest nl have fresh1: "set ls \<inter> set (map fst (all_keywords ?st1)) = {}" by blast
  have "parsed_libraries e (\<lambda>x. file_after e f x (library_files (fs_world ?st1) x)) ls
      = parsed_libraries e ?files ls"
    using nl by (intro parsed_libraries_cong) (auto simp: step_world)
  with Cons.IH [OF d fresh1] k1 show ?case
    by (simp add: parsed_libraries_Cons split: sum.splits)
qed

lemma fold_libraries:
  assumes "distinct libs" and "set libs \<inter> set (map fst (fs_libraries st)) = {}"
  shows "fs_libraries (foldl (library_step e f) st libs) =
     fs_libraries st
     @ reported_libraries e (\<lambda>l. file_after e f l (library_files (fs_world st) l)) libs"
  using assms
proof (induction libs arbitrary: st)
  case Nil
  show ?case by (simp add: reported_libraries_Nil)
next
  case (Cons l ls)
  let ?st1 = "library_step e f st l"
  let ?files = "\<lambda>l. file_after e f l (library_files (fs_world st) l)"
  from Cons.prems have d: "distinct ls" and nl: "l \<notin> set ls"
    and fresh: "l \<notin> set (map fst (fs_libraries st))"
    and rest: "set ls \<inter> set (map fst (fs_libraries st)) = {}" by auto
  have k1: "fs_libraries ?st1 = fs_libraries st @ reported_libraries e ?files [l]"
    using fresh
    by (simp add: step_libraries dict_set_fresh reported_libraries_Cons reported_libraries_Nil
        split: option.splits)
  then have "set (map fst (fs_libraries ?st1)) \<subseteq> insert l (set (map fst (fs_libraries st)))"
    by (auto simp: reported_libraries_Cons reported_libraries_Nil split: option.splits)
  with rest nl have fresh1: "set ls \<inter> set (map fst (fs_libraries ?st1)) = {}" by blast
  have "reported_libraries e (\<lambda>x. file_after e f x (library_files (fs_world ?st1) x)) ls
      = reported_libraries e ?files ls"
    using nl by (intro reported_libraries_cong) (auto simp: step_world)
  with Cons.IH [OF d fresh1] k1 show ?case
    by (simp add: reported_libraries_Cons reported_libraries_Nil split: option.splits)
qed

lemma fold_total:
  assumes "distinct libs"
  shows "fs_total_keywords (foldl (library_step e f) st libs) =
     fs_total_keywords st
     + sum_list (map (\<lambda>lk. length (snd lk))
         (parsed_libraries e (\<lambda>l. file_after e f l (library_files (fs_world st) l)) libs))"
  using assms
proof (induction libs arbitrary: st)
  case Nil
  show ?case by (simp add: parsed_libraries_Nil)
next
  case (Cons l ls)
  let ?st1 = "library_step e f st l"
  let ?files = "\<lambda>l. file_after e f l (library_files (fs_world st) l)"
  from Cons.prems have d: "distinct ls" and nl: "l \<notin> set ls" by auto
  have len: "kr_total_keywords r = length (kr_keywords r)" if "parse_cached e l c = Inr r" for c r
    using that
    by (auto simp: parse_cached_def bind_result_def split: option.splits file_bytes.splits sum.splits)
  have "parsed_libraries e (\<lambda>x. file_after e f x (library_files (fs_world ?st1) x)) ls
      = parsed_libraries e ?files ls"
    using nl by (intro parsed_libraries_cong) (auto simp: step_world)
  with Cons.IH [OF d, of ?st1] show ?case
    by (auto simp: parsed_libraries_Cons step_total len split: sum.splits)
qed

lemma distinct_STANDARD_LIBRARIES: "distinct STANDARD_LIBRARIES"
  by (simp add: STANDARD_LIBRARIES_def)

text \<open>The stages of a run, one after the other.\<close>

lemma fetch_unfold:
  "fetch_rf_documentation e f w =
     (let g = fetch_user_guide e f w;
          i = index_user_guide e (snd (snd g));
          st = foldl (library_step e f)
                 \<lparr>fs_world = snd i, fs_files_downloaded = fst (snd g),
                  fs_libraries = [], all_keywords = [], fs_total_keywords = 0\<rparr>
                 STANDARD_LIBRARIES;
          k = save_keywords_index e st
      in (\<lparr>fr_version = RF_VERSION, cache_location = CACHE_DIR,
           files_downloaded = fs_files_downloaded st, fr_libraries = fs_libraries st,
           user_guide = fst g, indexing = fst i, fr_keywords_index = fst k,
           fr_success = dl_success (fst g)\<rparr>, snd k))"
  by (simp add: fetch_rf_documentation_def Let_def split_def)

lemma guide_world:
  "snd (snd (fetch_user_guide e f w)) =
     w\<lparr>docs_file :=
          (if f \<or> docs_file w = None then
             (case urlopen e RF_DOCS_URL of Inl msg \<Rightarrow> docs_file w | Inr resp \<Rightarrow> Some (body resp))
           else docs_file w),
        requests := requests w @ (if f \<or> docs_file w = None then [RF_DOCS_URL] else [])\<rparr>"
  by (auto simp: fetch_user_guide_def download_file_def write_slot_def split: sum.splits)

lemma guide_success:
  "dl_success (fst (fetch_user_guide e f w)) =
     (if f \<or> docs_file w = None then (\<exists>resp. urlopen e RF_DOCS_URL = Inr resp) else True)"
  by (auto simp: fetch_user_guide_def download_file_def split: sum.splits)

lemma index_world:
  "snd (index_user_guide e w) =
     (case docs_file w of
        Some (Text html_content) \<Rightarrow>
          w\<lparr>now_calls := Suc (now_calls w),
             index_file :=
               Some \<lparr>si_version = RF_VERSION, si_parsed_at = datetime_now e (now_calls w),
                     total_sections = length (extract_sections (html_feed e html_content)),
                     si_sections = extract_sections (html_feed e html_content)\<rparr>\<rparr>
      | _ \<Rightarrow> w)"
  by (auto simp: index_user_guide_def parse_documentation_def Let_def
      split: option.splits file_bytes.splits)

lemma save_world:
  "snd (save_keywords_index e st) =
     (if all_keywords st \<noteq> [] then
        (fs_world st)\<lparr>now_calls := Suc (now_calls (fs_world st)),
           keywords_file :=
             Some \<lparr>ki_version = RF_VERSION,
                   ki_parsed_at = datetime_now e (now_calls (fs_world st)),
                   total_libraries = length (all_keywords st),
                   ki_total_keywords = fs_total_keywords st,
                   ki_libraries = all_keywords st\<rparr>\<rparr>
      else fs_world st)"
  by (simp add: save_keywords_index_def Let_def)

lemma index_world_frame:
  "library_files (snd (index_user_guide e w)) = library_files w"
  "keywords_file (snd (index_user_guide e w)) = keywords_file w"
  "docs_file (snd (index_user_guide e w)) = docs_file w"
  "requests (snd (index_user_guide e w)) = requests w"
  by (simp_all add: index_world split: option.splits file_bytes.splits)

lemma guide_world_frame:
  "library_files (snd (snd (fetch_user_guide e f w))) = library_files w"
  "keywords_file (snd (snd (fetch_user_guide e f w))) = keywords_file w"
  "index_file (snd (snd (fetch_user_guide e f w))) = index_file w"
  "now_calls (snd (snd (fetch_user_guide e f w))) = now_calls w"
  by (simp_all add: guide_world)

lemma fetch_loop:
  "fetch_rf_documentation e f w =
     (\<lparr>fr_version = RF_VERSION, cache_location = CACHE_DIR,
       files_downloaded = fs_files_downloaded (loop_state e f w),
       fr_libraries = fs_libraries (loop_state e f w),
       user_guide = fst (fetch_user_guide e f w),
       indexing = fst (index_user_guide e (snd (snd (fetch_user_guide e f w)))),
       fr_keywords_index = fst (save_keywords_index e (loop_state e f w)),
       fr_success = dl_success (fst (fetch_user_guide e f w))\<rparr>,
      snd (save_keywords_index e (loop_state e f w)))"
  by (simp add: fetch_unfold loop_state_def Let_def)

lemma loop_world:
  "fs_world (loop_state e f w) =
     (snd (index_user_guide e (snd (snd (fetch_user_guide e f w)))))
       \<lparr>library_files :=
          (\<lambda>l. if l \<in> set STANDARD_LIBRARIES then file_after e f l (library_files w l)
               else library_files w l),
        requests := requests (snd (snd (fetch_user_guide e f w)))
          @ map library_url (filter (\<lambda>l. f \<or> library_files w l = None) STANDARD_LIBRARIES)\<rparr>"
  unfolding loop_state_def
  by (simp add: fold_world [OF distinct_STANDARD_LIBRARIES] index_world_frame guide_world_frame
      cong: if_cong)

lemma fetch_library_files:
  "library_files (snd (fetch_rf_documentation e f w)) =
     (\<lambda>l. if l \<in> set STANDARD_LIBRARIES then file_after e f l (library_files w l)
          else library_files w l)"
  by (simp add: fetch_loop save_world loop_world)

lemma loop_keywords:
  "all_keywords (loop_state e f w) =
     parsed_libraries e (library_files (snd (fetch_rf_documentation e f w))) STANDARD_LIBRARIES"
proof -
  have "all_keywords (loop_state e f w) =
      parsed_libraries e (\<lambda>l. file_after e f l (library_files w l)) STANDARD_LIBRARIES"
    unfolding loop_state_def
    by (simp add: fold_keywords [OF distinct_STANDARD_LIBRARIES] index_world_frame
        guide_world_frame)
  also have "\<dots> = parsed_libraries e (library_files (snd (fetch_rf_documentation e f w)))
      STANDARD_LIBRARIES"
    by (rule parsed_libraries_cong) (simp add: fetch_library_files)
  finally show ?thesis .
qed

lemma loop_libraries:
  "fs_libraries (loop_state e f w) =
     reported_libraries e (library_files (snd (fetch_rf_documentation e f w))) STANDARD_LIBRARIES"
proof -
  have "fs_libraries (loop_state e f w) =
      reported_libraries e (\<lambda>l. file_after e f l (library_files w l)) STANDARD_LIBRARIES"
    unfolding loop_state_def
    by (simp add: fold_libraries [OF distinct_STANDARD_LIBRARIES] index_world_frame
        guide_world_frame)
  also have "\<dots> = reported_libraries e (library_files (snd (fetch_rf_documentation e f w)))
      STANDARD_LIBRARIES"
    by (rule reported_libraries_cong) (simp add: fetch_library_files)
  finally show ?thesis .
qed

lemma loop_total:
  "fs_total_keywords (loop_state e f w) =
     sum_list (map (\<lambda>lk. length (snd lk)) (all_keywords (loop_state e f w)))"
proof -
  have "all_keywords (loop_state e f w) =
      parsed_libraries e (\<lambda>l. file_after e f l (library_files w l)) STANDARD_LIBRARIES"
    unfolding loop_state_def
    by (simp add: fold_keywords [OF distinct_STANDARD_LIBRARIES] index_world_frame
        guide_world_frame)
  then show ?thesis
    unfolding loop_state_def
    by (simp add: fold_total [OF distinct_STANDARD_LIBRARIES] index_world_frame
        guide_world_frame loop_state_def)
qed

text \<open>The keyword index after a run: written anew, or left as it was.\<close>

lemma fetch_keywords_file:
  "keywords_file (snd (fetch_rf_documentation e f w)) =
     (if parsed_libraries e (library_files (snd (fetch_rf_documentation e f w))) STANDARD_LIBRARIES \<noteq> []
      then Some \<lparr>ki_version = RF_VERSION,
                 ki_parsed_at = datetime_now e (now_calls (fs_world (loop_state e f w))),
                 total_libraries =
                   length (parsed_libraries e (library_files (snd (fetch_rf_documentation e f w)))
                     STANDARD_LIBRARIES),
                 ki_total_keywords =
                   sum_list (map (\<lambda>lk. length (snd lk))
                     (parsed_libraries e (library_files (snd (fetch_rf_documentation e f w)))
                       STANDARD_LIBRARIES)),
                 ki_libraries =
                   parsed_libraries e (library_files (snd (fetch_rf_documentation e f w)))
                     STANDARD_LIBRARIES\<rparr>
      else keywords_file w)"
proof -
  have kf: "keywords_file (fs_world (loop_state e f w)) = keywords_file w"
    by (simp add: loop_world index_world_frame guide_world_frame)
  show ?thesis
    unfolding loop_keywords [symmetric]
    by (simp add: fetch_loop save_world kf loop_total)
qed

lemma fetch_report_libraries:
  "fr_libraries (fst (fetch_rf_documentation e f w)) =
     reported_libraries e (library_files (snd (fetch_rf_documentation e f w))) STANDARD_LIBRARIES"
proof -
  have "fr_libraries (fst (fetch_rf_documentation e f w)) = fs_libraries (loop_state e f w)"
    by (simp add: fetch_loop)
  then show ?thesis by (simp only: loop_libraries)
qed

lemma fetch_success:
  "fr_success (fst (fetch_rf_documentation e f w)) =
     (if f \<or> docs_file w = None then (\<exists>resp. urlopen e RF_DOCS_URL = Inr resp) else True)"
  by (simp add: fetch_loop guide_success)

lemma fetch_requests:
  "requests (snd (fetch_rf_documentation e f w)) =
     requests w @ (if f \<or> docs_file w = None then [RF_DOCS_URL] else [])
     @ map library_url (filter (\<lambda>l. f \<or> library_files w l = None) STANDARD_LIBRARIES)"
  by (simp add: fetch_loop save_world loop_world guide_world)

lemma fetch_docs_file:
  "docs_file (snd (fetch_rf_documentation e f w)) = docs_file (snd (snd (fetch_user_guide e f w)))"
  by (simp add: fetch_loop save_world loop_world index_world_frame)

lemma fetch_index_file:
  "index_file (snd (fetch_rf_documentation e f w)) =
     index_file (snd (index_user_guide e (snd (snd (fetch_user_guide e f w)))))"
  by (simp add: fetch_loop save_world loop_world)

end
